theory Spec2Isabelle
  imports Complex_Main "HOL-Library.Multiset" "HOL-Library.Monad_Syntax"
begin

section \<open>Arrays\<close>

text \<open>
  The notebook works on two-dimensional floating point arrays (\<^verbatim>\<open>jnp.ndarray\<close>,
  \<^verbatim>\<open>np.ndarray\<close>). An array of shape \<open>(n, k)\<close> is the list of its \<open>n\<close> rows together
  with its column count \<open>k\<close>, so that an array with no row still has a shape. Scalars are
  real numbers: rounding of the machine floats is not part of the model.
  A call of a library function that raises, or that yields NaN (the mean of no value),
  is the result \<open>None\<close>.
\<close>

datatype array2 = Array2 (ncols: nat) (rows: "real list list")

definition nrows :: "array2 \<Rightarrow> nat" where
  "nrows a = length (rows a)"

text \<open>The representation invariant: every row has \<open>ncols\<close> entries.\<close>

definition wf_array :: "array2 \<Rightarrow> bool" where
  "wf_array a = list_all (\<lambda>r. length r = ncols a) (rows a)"

text \<open>\<^verbatim>\<open>a.flatten()\<close>: the entries in row-major order.\<close>

definition flatten :: "array2 \<Rightarrow> real list" where
  "flatten a = concat (rows a)"

text \<open>
  \<^verbatim>\<open>np.linspace(start, stop, num)\<close> with the default \<^verbatim>\<open>endpoint=True\<close>: \<open>num\<close> samples,
  the step is \<open>(stop - start) / (num - 1)\<close>, and the last sample is set to \<open>stop\<close> itself.
\<close>

definition np_linspace :: "real \<Rightarrow> real \<Rightarrow> nat \<Rightarrow> real list" where
  "np_linspace start stop num =
     (if num = 0 then []
      else if num = 1 then [start]
      else let step = (stop - start) / real (num - 1)
           in map (\<lambda>i. real i * step + start) [0..<num - 1] @ [stop])"

definition np_sin :: "real list \<Rightarrow> real list" where
  "np_sin xs = map sin xs"

section \<open>Pandas dataframes\<close>

text \<open>
  A \<^verbatim>\<open>pd.DataFrame\<close> is its index (the row labels) and its named columns, in column order.
  In a well-formed frame every column has one entry per label.
\<close>

record dataframe =
  index :: "nat list"
  columns :: "(string \<times> real list) list"

definition df_nrows :: "dataframe \<Rightarrow> nat" where
  "df_nrows df = length (index df)"

definition wf_df :: "dataframe \<Rightarrow> bool" where
  "wf_df df = list_all (\<lambda>c. length (snd c) = length (index df)) (columns df)"

text \<open>
  \<^verbatim>\<open>pd.DataFrame({...})\<close> of a dictionary of columns: the default index is \<open>0, ..., n - 1\<close>;
  columns of different lengths raise ValueError.
\<close>

definition DataFrame :: "(string \<times> real list) list \<Rightarrow> dataframe option" where
  "DataFrame cols =
     (case cols of
        [] \<Rightarrow> Some \<lparr>index = [], columns = []\<rparr>
      | c # _ \<Rightarrow>
          if list_all (\<lambda>d. length (snd d) = length (snd c)) cols
          then Some \<lparr>index = [0..<length (snd c)], columns = cols\<rparr>
          else None)"

text \<open>
  The rows of a frame, each with its label and its cells in column order.
\<close>

definition df_row :: "dataframe \<Rightarrow> nat \<Rightarrow> nat \<times> real list" where
  "df_row df i = (index df ! i, map (\<lambda>c. snd c ! i) (columns df))"

definition df_rows :: "dataframe \<Rightarrow> (nat \<times> real list) list" where
  "df_rows df = map (df_row df) [0..<df_nrows df]"

text \<open>
  \<^verbatim>\<open>df.take(locs)\<close> / \<^verbatim>\<open>df.iloc[locs]\<close>: the rows at the given positions, in the given
  order. A position past the end raises IndexError.
\<close>

definition df_take :: "dataframe \<Rightarrow> nat list \<Rightarrow> dataframe option" where
  "df_take df locs =
     (if list_all (\<lambda>i. i < df_nrows df) locs
      then Some \<lparr>index = map (\<lambda>i. index df ! i) locs,
                 columns = map (\<lambda>c. (fst c, map (\<lambda>i. snd c ! i) locs)) (columns df)\<rparr>
      else None)"

text \<open>\<^verbatim>\<open>df.iloc[start:stop]\<close>: a slice never raises, it is cut at the end of the frame.\<close>

definition df_slice :: "dataframe \<Rightarrow> nat \<Rightarrow> nat \<Rightarrow> dataframe" where
  "df_slice df start stop =
     \<lparr>index = take (stop - start) (drop start (index df)),
      columns = map (\<lambda>c. (fst c, take (stop - start) (drop start (snd c)))) (columns df)\<rparr>"

text \<open>
  Python's \<^verbatim>\<open>round\<close> on a float: to the nearest integer, a tie to the even one.
\<close>

definition py_round :: "real \<Rightarrow> int" where
  "py_round r =
     (if frac r = 1 / 2 then (if even \<lfloor>r\<rfloor> then \<lfloor>r\<rfloor> else \<lfloor>r\<rfloor> + 1) else round r)"

text \<open>
  \<^verbatim>\<open>df.sample(frac=frac, random_state=seed)\<close>: pandas computes the sample size
  \<^verbatim>\<open>n = round(frac * len(df))\<close>, asks the random generator for \<open>n\<close> positions without
  replacement (\<^verbatim>\<open>rs.choice(len(df), size=n, replace=False)\<close>) and takes these rows. The
  generator is outside the repository: \<open>choice\<close> is what it returns for a population size
  and a sample size.
\<close>

definition sample_size :: "real \<Rightarrow> nat \<Rightarrow> nat" where
  "sample_size fraction axis_length = nat (py_round (fraction * real axis_length))"

definition df_sample :: "(nat \<Rightarrow> nat \<Rightarrow> nat list) \<Rightarrow> dataframe \<Rightarrow> real \<Rightarrow> dataframe option" where
  "df_sample choice df fraction =
     (let axis_length = df_nrows df;
          n = sample_size fraction axis_length;
          locs = choice axis_length n
      in df_take df locs)"

text \<open>
  What \<^verbatim>\<open>choice(m, size=n, replace=False)\<close> promises: \<open>n\<close> distinct positions below \<open>m\<close>.
\<close>

definition valid_choice :: "(nat \<Rightarrow> nat \<Rightarrow> nat list) \<Rightarrow> bool" where
  "valid_choice choice =
     (\<forall>m n. n \<le> m \<longrightarrow>
        length (choice m n) = n \<and> distinct (choice m n) \<and> set (choice m n) \<subseteq> {..<m})"

text \<open>
  \<^verbatim>\<open>df.drop(labels=labels)\<close>: the rows whose label is not among \<open>labels\<close>; a label that
  the index does not have raises KeyError.
\<close>

definition df_drop :: "dataframe \<Rightarrow> nat list \<Rightarrow> dataframe option" where
  "df_drop df labels =
     (if list_all (\<lambda>l. l \<in> set (index df)) labels
      then df_take df (filter (\<lambda>i. index df ! i \<notin> set labels) [0..<df_nrows df])
      else None)"

text \<open>
  \<^verbatim>\<open>df[[c1, ..., ck]]\<close>: the frame of the named columns; a missing name raises KeyError.
\<close>

definition df_getitem :: "dataframe \<Rightarrow> string list \<Rightarrow> dataframe option" where
  "df_getitem df names =
     (if list_all (\<lambda>n. map_of (columns df) n \<noteq> None) names
      then Some \<lparr>index = index df,
                 columns = map (\<lambda>n. (n, the (map_of (columns df) n))) names\<rparr>
      else None)"

text \<open>\<^verbatim>\<open>df.values\<close>: the cells as an array of shape (rows, columns).\<close>

definition df_values :: "dataframe \<Rightarrow> array2" where
  "df_values df =
     Array2 (length (columns df))
       (map (\<lambda>i. map (\<lambda>c. snd c ! i) (columns df)) [0..<df_nrows df])"

text \<open>\<^verbatim>\<open>df[name] = values\<close>: replaces the column, or appends it after the others.\<close>

definition df_setitem :: "dataframe \<Rightarrow> string \<Rightarrow> real list \<Rightarrow> dataframe" where
  "df_setitem df name vs =
     df\<lparr>columns :=
          (if map_of (columns df) name = None then columns df @ [(name, vs)]
           else map (\<lambda>c. if fst c = name then (name, vs) else c) (columns df))\<rparr>"

section \<open>Dask dataframes\<close>

text \<open>
  A \<^verbatim>\<open>dd.DataFrame\<close> is the list of its partitions, each a pandas frame. The model
  does not distinguish a lazy partition from its computed value: \<^verbatim>\<open>.compute()\<close> returns
  the frame.
\<close>

type_synonym dask_dataframe = "dataframe list"

definition compute :: "dataframe \<Rightarrow> dataframe" where
  "compute part = part"

text \<open>\<^verbatim>\<open>df.sort_index()\<close>: the rows in ascending order of their labels.\<close>

definition df_sort_index :: "dataframe \<Rightarrow> dataframe" where
  "df_sort_index df =
     (let locs = sort_key (\<lambda>i. index df ! i) [0..<df_nrows df]
      in \<lparr>index = map (\<lambda>i. index df ! i) locs,
          columns = map (\<lambda>c. (fst c, map (\<lambda>i. snd c ! i) locs)) (columns df)\<rparr>)"

text \<open>
  Dask's \<^verbatim>\<open>sorted_division_locations(seq, chunksize=chunksize)\<close>, which places the
  partition boundaries of \<^verbatim>\<open>dd.from_pandas\<close> on the sorted index \<open>seq\<close>:
  \<^verbatim>\<open>
    positions = [0]
    for pos in range(0, len(seq), chunksize):
        if pos <= positions[-1]: continue
        while pos + 1 < len(seq) and seq[pos - 1] == seq[pos]: pos += 1
        if pos == len(seq) - 1: pos += 1
        positions.append(pos)
    if positions[-1] != len(seq): positions.append(len(seq))
  \<close>
  A boundary never separates two equal labels, and a last partition of one row is merged
  into the one before it.
\<close>

definition py_range :: "nat \<Rightarrow> nat \<Rightarrow> nat list" where
  "py_range stop step = map (\<lambda>k. k * step) [0..<(stop + step - 1) div step]"

function skip_equal :: "nat list \<Rightarrow> nat \<Rightarrow> nat" where
  "skip_equal seq pos =
     (if pos + 1 < length seq \<and> seq ! (pos - 1) = seq ! pos
      then skip_equal seq (pos + 1) else pos)"
  by pat_completeness auto
termination
  by (relation "measure (\<lambda>(seq, pos). length seq - pos)") auto

declare skip_equal.simps [simp del]

fun division_loop :: "nat list \<Rightarrow> nat list \<Rightarrow> nat list \<Rightarrow> nat list" where
  "division_loop seq [] positions = positions"
| "division_loop seq (pos # rest) positions =
     (if pos \<le> last positions then division_loop seq rest positions
      else let pos1 = skip_equal seq pos;
               pos2 = (if pos1 = length seq - 1 then pos1 + 1 else pos1)
           in division_loop seq rest (positions @ [pos2]))"

definition sorted_division_locations :: "nat list \<Rightarrow> nat \<Rightarrow> nat list" where
  "sorted_division_locations seq chunksize =
     (let positions = division_loop seq (py_range (length seq) chunksize) [0]
      in if last positions \<noteq> length seq then positions @ [length seq] else positions)"

text \<open>
  \<^verbatim>\<open>dd.from_pandas(data, chunksize=chunksize)\<close>: an empty frame is one empty partition;
  otherwise the frame is sorted by its index unless it is sorted already, and cut at the
  division locations. A chunk size of zero raises (\<^verbatim>\<open>range\<close> with step zero).
\<close>

definition from_pandas :: "dataframe \<Rightarrow> nat \<Rightarrow> dask_dataframe option" where
  "from_pandas data chunksize =
     (if df_nrows data = 0 then Some [data]
      else if chunksize = 0 then None
      else let data' = (if sorted (index data) then data else df_sort_index data);
               locations = sorted_division_locations (index data') chunksize
           in Some (map (\<lambda>(start, stop). df_slice data' start stop)
                      (zip (butlast locations) (tl locations))))"

section \<open>The notebook: data\<close>

text \<open>The example data: the sine function on 50 points of \<open>[0, 2\<pi>]\<close>.\<close>

definition num_points :: nat where
  "num_points = 50"

definition x_all :: "real list" where
  "x_all = np_linspace 0 (2 * pi) num_points"

definition y_all :: "real list" where
  "y_all = np_sin x_all"

definition df_all :: "dataframe option" where
  "df_all = DataFrame [(''x'', x_all), (''y'', y_all)]"

text \<open>The random split into training and validation data.\<close>

definition train_frac :: real where
  "train_frac = 8 / 10"

definition df_train :: "(nat \<Rightarrow> nat \<Rightarrow> nat list) \<Rightarrow> dataframe option" where
  "df_train choice = do { df \<leftarrow> df_all; df_sample choice df train_frac }"

definition df_validation :: "(nat \<Rightarrow> nat \<Rightarrow> nat list) \<Rightarrow> dataframe option" where
  "df_validation choice =
     do { df \<leftarrow> df_all; tr \<leftarrow> df_train choice; df_drop df (index tr) }"

text \<open>The Dask dataframes: one partition is one batch.\<close>

definition batch_size :: nat where
  "batch_size = 32"

definition ddf_train_0 :: "(nat \<Rightarrow> nat \<Rightarrow> nat list) \<Rightarrow> dask_dataframe option" where
  "ddf_train_0 choice = do { tr \<leftarrow> df_train choice; from_pandas tr batch_size }"

definition ddf_validation_0 :: "(nat \<Rightarrow> nat \<Rightarrow> nat list) \<Rightarrow> dask_dataframe option" where
  "ddf_validation_0 choice = do { va \<leftarrow> df_validation choice; from_pandas va batch_size }"

section \<open>Standardising the feature\<close>

text \<open>
  \<^verbatim>\<open>dask_ml.preprocessing.StandardScaler\<close> on one column: \<^verbatim>\<open>fit\<close> keeps the mean and the
  standard deviation of the column (the population one; a deviation of zero is replaced
  by one), \<^verbatim>\<open>transform\<close> subtracts the mean and divides by the deviation. Fitting on no
  value gives NaN.
\<close>

record standard_scaler =
  sc_mean :: real
  sc_scale :: real

definition scaler_fit :: "real list \<Rightarrow> standard_scaler option" where
  "scaler_fit xs =
     (if xs = [] then None
      else let m = sum_list xs / real (length xs);
               v = sum_list (map (\<lambda>x. (x - m)\<^sup>2) xs) / real (length xs);
               s = sqrt v
           in Some \<lparr>sc_mean = m, sc_scale = (if s = 0 then 1 else s)\<rparr>)"

definition scaler_transform :: "standard_scaler \<Rightarrow> real list \<Rightarrow> real list" where
  "scaler_transform sc xs = map (\<lambda>x. (x - sc_mean sc) / sc_scale sc) xs"

text \<open>The column \<open>name\<close> of every partition; KeyError when a partition lacks it.\<close>

definition ddf_column :: "dask_dataframe \<Rightarrow> string \<Rightarrow> real list list option" where
  "ddf_column ddf name = those (map (\<lambda>part. map_of (columns part) name) ddf)"

text \<open>
  \<^verbatim>\<open>ddf["scaled_x"] = scaler.transform(ddf[["x"]]).x\<close>, partition by partition.
\<close>

definition add_scaled_x :: "standard_scaler \<Rightarrow> dask_dataframe \<Rightarrow> dask_dataframe option" where
  "add_scaled_x sc ddf =
     those (map (\<lambda>part. map_option (\<lambda>xs. df_setitem part ''scaled_x'' (scaler_transform sc xs))
                          (map_of (columns part) ''x'')) ddf)"

text \<open>
  The scaler is fitted on the training data (\<^verbatim>\<open>fit_transform\<close>) and applied to both frames.
\<close>

definition scaler :: "(nat \<Rightarrow> nat \<Rightarrow> nat list) \<Rightarrow> standard_scaler option" where
  "scaler choice =
     do { ddf \<leftarrow> ddf_train_0 choice; xs \<leftarrow> ddf_column ddf ''x''; scaler_fit (concat xs) }"

definition ddf_train :: "(nat \<Rightarrow> nat \<Rightarrow> nat list) \<Rightarrow> dask_dataframe option" where
  "ddf_train choice =
     do { ddf \<leftarrow> ddf_train_0 choice; sc \<leftarrow> scaler choice; add_scaled_x sc ddf }"

definition ddf_validation :: "(nat \<Rightarrow> nat \<Rightarrow> nat list) \<Rightarrow> dask_dataframe option" where
  "ddf_validation choice =
     do { ddf \<leftarrow> ddf_validation_0 choice; sc \<leftarrow> scaler choice; add_scaled_x sc ddf }"

section \<open>The network\<close>

text \<open>
  The parameters of a \<^verbatim>\<open>hk.Linear\<close> layer are its weights \<open>w\<close>, of shape (inputs, outputs),
  and its bias \<open>b\<close>. \<^verbatim>\<open>hk.Params\<close> maps the module names \<^verbatim>\<open>linear\<close>, \<^verbatim>\<open>linear_1\<close>, ...
  to these; the model keeps the entries as a list, in the order the layers are created.
  Gradients, optimizer updates and the moments of the optimizer are trees of the same type.
\<close>

record linear_params =
  w :: array2
  b :: "real list"

type_synonym hk_params = "linear_params list"

text \<open>One row of \<^verbatim>\<open>jnp.dot(x, w)\<close>.\<close>

definition vec_mat :: "real list \<Rightarrow> array2 \<Rightarrow> real list" where
  "vec_mat r m = map (\<lambda>j. sum_list (map2 (\<lambda>ri mi. ri * mi ! j) r (rows m))) [0..<ncols m]"

text \<open>
  \<^verbatim>\<open>hk.Linear(output_size)(x)\<close> with given parameters: \<^verbatim>\<open>jnp.dot(x, w) + b\<close>. Haiku
  raises when the stored \<open>w\<close> is not of shape (columns of \<open>x\<close>, \<open>output_size\<close>) or \<open>b\<close> not of
  shape (\<open>output_size\<close>).
\<close>

definition hk_Linear :: "nat \<Rightarrow> linear_params \<Rightarrow> array2 \<Rightarrow> array2 option" where
  "hk_Linear output_size lp x =
     (if wf_array x \<and> wf_array (w lp) \<and> nrows (w lp) = ncols x
         \<and> ncols (w lp) = output_size \<and> length (b lp) = output_size
      then Some (Array2 output_size (map (\<lambda>r. map2 (+) (vec_mat r (w lp)) (b lp)) (rows x)))
      else None)"

definition jax_nn_relu :: "array2 \<Rightarrow> array2" where
  "jax_nn_relu a = Array2 (ncols a) (map (map (max 0)) (rows a))"

text \<open>
  \<^verbatim>\<open>net_function\<close>: four linear layers of 50, 100, 50 and 1 outputs, with a ReLU between
  them. The function reads its parameters from the Haiku transform, here from its first
  argument.
\<close>

definition net_function :: "hk_params \<Rightarrow> array2 \<Rightarrow> array2 option" where
  "net_function params x =
     (case params of
        [l0, l1, l2, l3] \<Rightarrow>
          do { h0 \<leftarrow> hk_Linear 50 l0 x;
               h1 \<leftarrow> hk_Linear 100 l1 (jax_nn_relu h0);
               h2 \<leftarrow> hk_Linear 50 l2 (jax_nn_relu h1);
               hk_Linear 1 l3 (jax_nn_relu h2) }
      | _ \<Rightarrow> None)"

text \<open>\<^verbatim>\<open>net_transform = hk.transform(net_function)\<close>: its \<^verbatim>\<open>apply\<close> and its \<^verbatim>\<open>init\<close>.\<close>

definition net_transform_apply :: "hk_params \<Rightarrow> array2 \<Rightarrow> array2 option" where
  "net_transform_apply params x = net_function params x"

text \<open>
  \<^verbatim>\<open>net_transform.init(rng, x)\<close> runs \<^verbatim>\<open>net_function\<close> and creates the parameters of every
  layer on the way: the weights of layer \<open>i\<close> are drawn by the layer's initializer from the
  key \<open>rng\<close> with the shape (inputs, outputs), the bias is zero. The inputs of the first
  layer are the columns of \<open>x\<close>, those of every other layer the outputs of the layer before.
  The initializer belongs to the library: \<open>w_init rng i n m\<close> is what it draws for layer
  \<open>i\<close> from the key \<open>rng\<close>, a function of its arguments as every JAX random function is.
\<close>

fun init_linears ::
  "(nat \<Rightarrow> nat \<Rightarrow> nat \<Rightarrow> nat \<Rightarrow> array2) \<Rightarrow> nat \<Rightarrow> nat \<Rightarrow> nat \<Rightarrow> nat list \<Rightarrow> hk_params" where
  "init_linears w_init rng i input_size [] = []"
| "init_linears w_init rng i input_size (output_size # rest) =
     \<lparr>w = w_init rng i input_size output_size, b = replicate output_size 0\<rparr>
       # init_linears w_init rng (Suc i) output_size rest"

definition net_transform_init ::
  "(nat \<Rightarrow> nat \<Rightarrow> nat \<Rightarrow> nat \<Rightarrow> array2) \<Rightarrow> nat \<Rightarrow> array2 \<Rightarrow> hk_params" where
  "net_transform_init w_init rng x = init_linears w_init rng 0 (ncols x) [50, 100, 50, 1]"

definition PRNGKey :: "nat \<Rightarrow> nat" where
  "PRNGKey seed = seed"

text \<open>
  \<^verbatim>\<open>initialize_net_function\<close>. The example input is \<^verbatim>\<open>np.random.random([batch_size, 1])\<close>:
  \<open>u i j\<close> is the number the global NumPy generator draws for its entry \<open>(i, j)\<close> in this
  call. The function returns the transform (fixed, see above) and the parameters.
\<close>

definition initialize_net_function ::
  "(nat \<Rightarrow> nat \<Rightarrow> nat \<Rightarrow> nat \<Rightarrow> array2) \<Rightarrow> (nat \<Rightarrow> nat \<Rightarrow> real) \<Rightarrow> hk_params" where
  "initialize_net_function w_init u =
     (let rng = PRNGKey 42;
          num_features = 1;
          example_x = Array2 num_features
                        (map (\<lambda>i. map (\<lambda>j. u i j) [0..<num_features]) [0..<batch_size]);
          params = net_transform_init w_init rng example_x
      in params)"

section \<open>The loss\<close>

text \<open>
  NumPy broadcasting of two-dimensional arrays: two extents are compatible when they are
  equal or one of them is 1, and the array of extent 1 is repeated.
\<close>

definition broadcast_dim :: "nat \<Rightarrow> nat \<Rightarrow> nat option" where
  "broadcast_dim m n =
     (if m = n then Some m else if m = 1 then Some n else if n = 1 then Some m else None)"

definition stretch :: "nat \<Rightarrow> 'a list \<Rightarrow> 'a list" where
  "stretch n xs = (if length xs = n then xs else replicate n (hd xs))"

definition broadcast_to :: "nat \<Rightarrow> nat \<Rightarrow> array2 \<Rightarrow> array2" where
  "broadcast_to r c a = Array2 c (stretch r (map (stretch c) (rows a)))"

text \<open>\<^verbatim>\<open>a - b\<close>; incompatible shapes raise.\<close>

definition jnp_subtract :: "array2 \<Rightarrow> array2 \<Rightarrow> array2 option" where
  "jnp_subtract a1 a2 =
     (if wf_array a1 \<and> wf_array a2 then
        (case (broadcast_dim (nrows a1) (nrows a2), broadcast_dim (ncols a1) (ncols a2)) of
           (Some r, Some c) \<Rightarrow>
             Some (Array2 c (map2 (map2 (-)) (rows (broadcast_to r c a1))
                                            (rows (broadcast_to r c a2))))
         | _ \<Rightarrow> None)
      else None)"

text \<open>\<^verbatim>\<open>a ** 2\<close>, entry by entry.\<close>

definition jnp_square :: "array2 \<Rightarrow> array2" where
  "jnp_square a = Array2 (ncols a) (map (map (\<lambda>v. v\<^sup>2)) (rows a))"

text \<open>\<^verbatim>\<open>jnp.average(a)\<close>: the mean of all entries; NaN when there is none.\<close>

definition jnp_average :: "array2 \<Rightarrow> real option" where
  "jnp_average a =
     (let vs = flatten a in if vs = [] then None else Some (sum_list vs / real (length vs)))"

definition mean_squared_error :: "array2 \<Rightarrow> array2 \<Rightarrow> real option" where
  "mean_squared_error y_true y_pred =
     do { d \<leftarrow> jnp_subtract y_true y_pred;
          jnp_average (jnp_square d) }"

definition loss_function :: "hk_params \<Rightarrow> array2 \<Rightarrow> array2 \<Rightarrow> real option" where
  "loss_function params x y_true =
     do { y_pred \<leftarrow> net_transform_apply params x;
          mean_squared_error y_true y_pred }"

section \<open>The optimizer\<close>

text \<open>
  \<^verbatim>\<open>jax.tree_multimap\<close> on parameter trees: the function is applied entry by entry to
  the arrays of the two trees, which must have the same structure and shapes (JAX raises
  otherwise).
\<close>

definition tree_shape :: "hk_params \<Rightarrow> (nat \<times> nat list \<times> nat) list" where
  "tree_shape t = map (\<lambda>l. (ncols (w l), map length (rows (w l)), length (b l))) t"

definition tree_map :: "(real \<Rightarrow> real) \<Rightarrow> hk_params \<Rightarrow> hk_params" where
  "tree_map f t =
     map (\<lambda>l. \<lparr>w = Array2 (ncols (w l)) (map (map f) (rows (w l))), b = map f (b l)\<rparr>) t"

definition tree_multimap :: "(real \<Rightarrow> real \<Rightarrow> real) \<Rightarrow> hk_params \<Rightarrow> hk_params \<Rightarrow> hk_params option" where
  "tree_multimap f t1 t2 =
     (if tree_shape t1 = tree_shape t2
      then Some (map2 (\<lambda>l1 l2. \<lparr>w = Array2 (ncols (w l1))
                                         (map2 (map2 f) (rows (w l1)) (rows (w l2))),
                                  b = map2 f (b l1) (b l2)\<rparr>) t1 t2)
      else None)"

text \<open>
  \<^verbatim>\<open>optix.adam(learning_rate)\<close> is \<^verbatim>\<open>chain(scale_by_adam(b1=0.9, b2=0.999, eps=1e-8),
  scale(-learning_rate))\<close>. Its state is the step count and the two moments (the state of
  \<^verbatim>\<open>scale\<close> is empty).
  \<^verbatim>\<open>
    mu = (1 - b1) * g + b1 * mu            nu = (1 - b2) * g**2 + b2 * nu
    mu_hat = mu / (1 - b1 ** (count + 1))  nu_hat = nu / (1 - b2 ** (count + 1))
    updates = mu_hat / (sqrt(nu_hat) + eps)
    updates = -learning_rate * updates
  \<close>
\<close>

record adam_state =
  adam_count :: nat
  mu :: hk_params
  nu :: hk_params

definition adam_init :: "hk_params \<Rightarrow> adam_state" where
  "adam_init params =
     \<lparr>adam_count = 0, mu = tree_map (\<lambda>_. 0) params, nu = tree_map (\<lambda>_. 0) params\<rparr>"

definition adam_update ::
  "real \<Rightarrow> hk_params \<Rightarrow> adam_state \<Rightarrow> (hk_params \<times> adam_state) option" where
  "adam_update learning_rate grads state =
     (let b1 = 9 / 10; b2 = 999 / 1000; eps = 1 / 10 ^ 8
      in do { mu' \<leftarrow> tree_multimap (\<lambda>g t. (1 - b1) * g + b1 * t) grads (mu state);
              nu' \<leftarrow> tree_multimap (\<lambda>g t. (1 - b2) * g\<^sup>2 + b2 * t) grads (nu state);
              let mu_hat = tree_map (\<lambda>t. t / (1 - b1 ^ (adam_count state + 1))) mu';
              let nu_hat = tree_map (\<lambda>t. t / (1 - b2 ^ (adam_count state + 1))) nu';
              updates \<leftarrow> tree_multimap (\<lambda>m v. m / (sqrt v + eps)) mu_hat nu_hat;
              let updates = tree_map (\<lambda>g. - learning_rate * g) updates;
              Some (updates, \<lparr>adam_count = adam_count state + 1, mu = mu', nu = nu'\<rparr>) })"

text \<open>\<^verbatim>\<open>optimizer = optix.adam(learning_rate=1e-3)\<close>: its \<^verbatim>\<open>init\<close> and its \<^verbatim>\<open>update\<close>.\<close>

definition optimizer_init :: "hk_params \<Rightarrow> adam_state" where
  "optimizer_init params = adam_init params"

definition optimizer_update :: "hk_params \<Rightarrow> adam_state \<Rightarrow> (hk_params \<times> adam_state) option" where
  "optimizer_update grads state = adam_update (1 / 1000) grads state"

text \<open>\<^verbatim>\<open>optix.apply_updates(params, updates)\<close>: \<^verbatim>\<open>params + updates\<close>, entry by entry.\<close>

definition apply_updates :: "hk_params \<Rightarrow> hk_params \<Rightarrow> hk_params option" where
  "apply_updates params updates = tree_multimap (\<lambda>p u. p + u) params updates"

section \<open>Prediction and training\<close>

text \<open>
  Automatic differentiation is the library's: \<open>jax_grad f p\<close> stands for
  \<^verbatim>\<open>jax.grad(f)(p)\<close>, the gradient of \<open>f\<close> at \<open>p\<close>, or \<open>None\<close> when the call raises.
  Every function below that differentiates takes it as its first argument.
\<close>

type_synonym grad_fn = "(hk_params \<Rightarrow> real option) \<Rightarrow> hk_params \<Rightarrow> hk_params option"

definition predict :: "hk_params \<Rightarrow> array2 \<Rightarrow> array2 option" where
  "predict params x = net_transform_apply params x"

definition dask_predict_wrapper :: "dataframe \<Rightarrow> hk_params \<Rightarrow> real list option" where
  "dask_predict_wrapper df params =
     do { d \<leftarrow> df_getitem df [''scaled_x''];
          let scaled_x = df_values d;
          y_pred \<leftarrow> predict params scaled_x;
          Some (flatten y_pred) }"

definition update ::
  "grad_fn \<Rightarrow> hk_params \<Rightarrow> adam_state \<Rightarrow> array2 \<Rightarrow> array2 \<Rightarrow> (hk_params \<times> adam_state) option" where
  "update jax_grad params opt_state x y =
     do { grads \<leftarrow> jax_grad (\<lambda>p. loss_function p x y) params;
          (updates, opt_state) \<leftarrow> optimizer_update grads opt_state;
          params \<leftarrow> apply_updates params updates;
          Some (params, opt_state) }"

text \<open>CASE 1: the batches are loaded and used one after the other.\<close>

fun case1_batches ::
  "grad_fn \<Rightarrow> dataframe list \<Rightarrow> hk_params \<times> adam_state \<Rightarrow> (hk_params \<times> adam_state) option" where
  "case1_batches jax_grad [] st = Some st"
| "case1_batches jax_grad (ddf_one_partition # rest) (params, opt_state) =
     do { let df_one_partition = compute ddf_one_partition;
          d1 \<leftarrow> df_getitem df_one_partition [''scaled_x''];
          let scaled_x = df_values d1;
          d2 \<leftarrow> df_getitem df_one_partition [''y''];
          let y = df_values d2;
          st \<leftarrow> update jax_grad params opt_state scaled_x y;
          case1_batches jax_grad rest st }"

fun case1_epochs ::
  "grad_fn \<Rightarrow> dask_dataframe \<Rightarrow> nat list \<Rightarrow> hk_params \<times> adam_state
     \<Rightarrow> (hk_params \<times> adam_state) option" where
  "case1_epochs jax_grad ddf [] st = Some st"
| "case1_epochs jax_grad ddf (epoch_number # rest) st =
     do { st' \<leftarrow> case1_batches jax_grad ddf st;
          case1_epochs jax_grad ddf rest st' }"

text \<open>CASE 2: the gradients of the batches are computed as tasks of the Dask client.\<close>

definition compute_grads :: "grad_fn \<Rightarrow> hk_params \<Rightarrow> array2 \<Rightarrow> array2 \<Rightarrow> hk_params option" where
  "compute_grads jax_grad params x y = jax_grad (\<lambda>p. loss_function p x y) params"

definition dask_compute_grads_one_partition_wrapper ::
  "grad_fn \<Rightarrow> dataframe \<Rightarrow> hk_params \<Rightarrow> hk_params option" where
  "dask_compute_grads_one_partition_wrapper jax_grad ddf params =
     do { d1 \<leftarrow> df_getitem ddf [''scaled_x''];
          let scaled_x = df_values d1;
          d2 \<leftarrow> df_getitem ddf [''y''];
          let y = df_values d2;
          compute_grads jax_grad params scaled_x y }"

text \<open>
  \<^verbatim>\<open>client.submit(dask_compute_grads_one_partition_wrapper, part, params)\<close> returns a
  future: the task keeps the arguments it was submitted with, and its result is the
  function applied to them.
\<close>

record future =
  task_partition :: dataframe
  task_params :: hk_params

definition client_submit :: "dataframe \<Rightarrow> hk_params \<Rightarrow> future" where
  "client_submit part params = \<lparr>task_partition = part, task_params = params\<rparr>"

definition future_result :: "grad_fn \<Rightarrow> future \<Rightarrow> hk_params option" where
  "future_result jax_grad fut =
     dask_compute_grads_one_partition_wrapper jax_grad (task_partition fut) (task_params fut)"

fun submit_partitions :: "hk_params \<Rightarrow> dataframe list \<Rightarrow> future list \<Rightarrow> future list" where
  "submit_partitions params [] futures = futures"
| "submit_partitions params (ddf_one_partition # rest) futures =
     submit_partitions params rest (futures @ [client_submit ddf_one_partition params])"

text \<open>
  \<^verbatim>\<open>as_completed(futures, with_results=True)\<close> yields every future once, with its result,
  in the order in which the workers finish. That order is the scheduler's: \<open>order\<close> lists
  the positions of the futures as they complete, a permutation of \<open>0, ..., n - 1\<close>.
\<close>

definition as_completed :: "grad_fn \<Rightarrow> future list \<Rightarrow> nat list \<Rightarrow> (future \<times> hk_params option) list" where
  "as_completed jax_grad futures order =
     map (\<lambda>i. (futures ! i, future_result jax_grad (futures ! i))) order"

fun aggregate ::
  "(future \<times> hk_params option) list \<Rightarrow> hk_params \<times> adam_state
     \<Rightarrow> (hk_params \<times> adam_state) option" where
  "aggregate [] st = Some st"
| "aggregate ((fut, result) # rest) (params, opt_state) =
     do { grads \<leftarrow> result;
          (updates, opt_state) \<leftarrow> optimizer_update grads opt_state;
          params \<leftarrow> apply_updates params updates;
          aggregate rest (params, opt_state) }"

fun case2_epoch ::
  "grad_fn \<Rightarrow> dask_dataframe \<Rightarrow> nat list \<Rightarrow> hk_params \<times> adam_state
     \<Rightarrow> (hk_params \<times> adam_state) option" where
  "case2_epoch jax_grad ddf order (params, opt_state) =
     (let futures = submit_partitions params ddf []
      in aggregate (as_completed jax_grad futures order) (params, opt_state))"

text \<open>\<open>sched epoch_number\<close> is the completion order of the epoch.\<close>

fun case2_epochs ::
  "grad_fn \<Rightarrow> dask_dataframe \<Rightarrow> (nat \<Rightarrow> nat list) \<Rightarrow> nat list \<Rightarrow> hk_params \<times> adam_state
     \<Rightarrow> (hk_params \<times> adam_state) option" where
  "case2_epochs jax_grad ddf sched [] st = Some st"
| "case2_epochs jax_grad ddf sched (epoch_number # rest) st =
     do { st' \<leftarrow> case2_epoch jax_grad ddf (sched epoch_number) st;
          case2_epochs jax_grad ddf sched rest st' }"

section \<open>The notebook: model and training\<close>

text \<open>
  The cells of the notebook in their order: the value of \<open>(params, opt_state)\<close> after the
  model and the optimizer are initialised, after the loop of CASE 1, after the reset that
  precedes CASE 2 (a second call of \<^verbatim>\<open>initialize_net_function\<close>, with the draws \<open>u'\<close> of the
  generator at that time), and after the loop of CASE 2.
\<close>

definition state_initial ::
  "(nat \<Rightarrow> nat \<Rightarrow> nat \<Rightarrow> nat \<Rightarrow> array2) \<Rightarrow> (nat \<Rightarrow> nat \<Rightarrow> real) \<Rightarrow> hk_params \<times> adam_state" where
  "state_initial w_init u =
     (let params = initialize_net_function w_init u;
          opt_state = optimizer_init params
      in (params, opt_state))"

definition state_after_case1 ::
  "grad_fn \<Rightarrow> (nat \<Rightarrow> nat \<Rightarrow> nat \<Rightarrow> nat \<Rightarrow> array2) \<Rightarrow> (nat \<Rightarrow> nat \<Rightarrow> real) \<Rightarrow> (nat \<Rightarrow> nat \<Rightarrow> nat list)
     \<Rightarrow> (hk_params \<times> adam_state) option" where
  "state_after_case1 jax_grad w_init u choice =
     do { ddf \<leftarrow> ddf_train choice;
          case1_epochs jax_grad ddf [0..<200] (state_initial w_init u) }"

definition state_reset ::
  "(nat \<Rightarrow> nat \<Rightarrow> nat \<Rightarrow> nat \<Rightarrow> array2) \<Rightarrow> (nat \<Rightarrow> nat \<Rightarrow> real) \<Rightarrow> hk_params \<times> adam_state" where
  "state_reset w_init u' =
     (let params = initialize_net_function w_init u';
          opt_state = optimizer_init params
      in (params, opt_state))"

definition state_after_case2 ::
  "grad_fn \<Rightarrow> (nat \<Rightarrow> nat \<Rightarrow> nat \<Rightarrow> nat \<Rightarrow> array2) \<Rightarrow> (nat \<Rightarrow> nat \<Rightarrow> real) \<Rightarrow> (nat \<Rightarrow> nat \<Rightarrow> nat list)
     \<Rightarrow> (nat \<Rightarrow> nat list) \<Rightarrow> (hk_params \<times> adam_state) option" where
  "state_after_case2 jax_grad w_init u' choice sched =
     do { ddf \<leftarrow> ddf_train choice;
          case2_epochs jax_grad ddf sched [0..<200] (state_reset w_init u') }"

section \<open>The steps of training, as the specification names them\<close>

text \<open>
  The specification speaks of the update step applied to one batch, and of one optimizer
  update and one parameter update per gradient. These are the two steps, written apart
  from the loops above so that the loops can be compared with folds of them.
\<close>

definition batch_update ::
  "grad_fn \<Rightarrow> dataframe \<Rightarrow> hk_params \<times> adam_state \<Rightarrow> (hk_params \<times> adam_state) option" where
  "batch_update jax_grad part st =
     do { d1 \<leftarrow> df_getitem part [''scaled_x''];
          d2 \<leftarrow> df_getitem part [''y''];
          update jax_grad (fst st) (snd st) (df_values d1) (df_values d2) }"

definition apply_gradient ::
  "hk_params \<Rightarrow> hk_params \<times> adam_state \<Rightarrow> (hk_params \<times> adam_state) option" where
  "apply_gradient grads st =
     do { (updates, opt_state) \<leftarrow> optimizer_update grads (snd st);
          params \<leftarrow> apply_updates (fst st) updates;
          Some (params, opt_state) }"

section \<open>Sample values\<close>

text \<open>
  Parameters of the shapes the network expects, all weights zero and the last bias \<open>c\<close>:
  with them the network is the constant function \<open>c\<close>. They serve as a concrete input.
\<close>

definition constant_net :: "real \<Rightarrow> hk_params" where
  "constant_net c =
     [\<lparr>w = Array2 50 (replicate 1 (replicate 50 0)), b = replicate 50 0\<rparr>,
      \<lparr>w = Array2 100 (replicate 50 (replicate 100 0)), b = replicate 100 0\<rparr>,
      \<lparr>w = Array2 50 (replicate 100 (replicate 50 0)), b = replicate 50 0\<rparr>,
      \<lparr>w = Array2 1 (replicate 50 (replicate 1 0)), b = [c]\<rparr>]"

text \<open>
  A gradient function for concrete inputs: the central difference of \<open>f\<close> in the last
  bias, and zero in every other entry. At the parameters \<open>constant_net c\<close> this is the
  gradient of the loss: there the loss is the mean of \<open>(y - c)\<^sup>2\<close>, a quadratic in the
  last bias, for which the central difference is the derivative, and its other partial
  derivatives vanish, since they carry a factor from the zero weights of the last layer or
  from its inputs, which are zero.
\<close>

definition shift_last_bias :: "real \<Rightarrow> hk_params \<Rightarrow> hk_params" where
  "shift_last_bias d p = butlast p @ [(last p)\<lparr>b := map (\<lambda>v. v + d) (b (last p))\<rparr>]"

definition last_bias_grad :: grad_fn where
  "last_bias_grad f p =
     (case (f (shift_last_bias 1 p), f (shift_last_bias (- 1) p)) of
        (Some l1, Some l2) \<Rightarrow>
           Some (butlast (tree_map (\<lambda>_. 0) p)
                 @ [(last (tree_map (\<lambda>_. 0) p))\<lparr>b := [(l1 - l2) / 2]\<rparr>])
      | _ \<Rightarrow> None)"

text \<open>Three partitions of one row \<open>(x, sin x)\<close> each, with a standardised feature.\<close>

definition part_a :: dataframe where
  "part_a = \<lparr>index = [0], columns = [(''x'', [0]), (''y'', [0]), (''scaled_x'', [- 1])]\<rparr>"

definition part_b :: dataframe where
  "part_b = \<lparr>index = [1], columns = [(''x'', [pi / 2]), (''y'', [1]), (''scaled_x'', [0])]\<rparr>"

definition part_c :: dataframe where
  "part_c = \<lparr>index = [2], columns = [(''x'', [pi]), (''y'', [0]), (''scaled_x'', [1])]\<rparr>"

section \<open>Properties of the data\<close>

lemma sample_size_train: "sample_size train_frac 50 = 40"
  by (simp add: sample_size_def train_frac_def py_round_def)

lemma length_x_all: "length x_all = 50"
  by (simp add: x_all_def np_linspace_def num_points_def)

lemma x_all_eq: "x_all = map (\<lambda>i. real i * (2 * pi / 49)) [0..<50]"
proof -
  have "[0..<50::nat] = [0..<49] @ [49]" by (simp add: upt_rec)
  then show ?thesis
    by (simp add: x_all_def np_linspace_def num_points_def Let_def)
qed

lemma df_all_Some:
  "df_all = Some \<lparr>index = [0..<50], columns = [(''x'', x_all), (''y'', map sin x_all)]\<rparr>"
  by (simp add: df_all_def DataFrame_def y_all_def np_sin_def length_x_all)

lemma bind_df_all: "Option.bind df_all f = f (the df_all)"
  by (simp add: df_all_Some)

lemma df_all_index: "index (the df_all) = [0..<50]"
  by (simp add: df_all_Some)

lemma df_all_columns: "columns (the df_all) = [(''x'', x_all), (''y'', map sin x_all)]"
  by (simp add: df_all_Some)

lemma df_all_row:
  assumes "i < 50"
  shows "df_row (the df_all) i = (i, [real i * (2 * pi / 49), sin (real i * (2 * pi / 49))])"
proof -
  have xi: "x_all ! i = real i * (2 * pi / 49)"
    using assms unfolding x_all_eq by (simp del: upt_Suc)
  have "map sin x_all ! i = sin (x_all ! i)"
    using assms by (simp add: length_x_all)
  then show ?thesis
    using assms by (simp add: df_row_def df_all_index df_all_columns xi del: upt_Suc)
qed

lemma df_all_rows: "df_rows (the df_all) = map (\<lambda>i. (i, [real i * (2 * pi / 49), sin (real i * (2 * pi / 49))])) [0..<50]"
  by (simp add: df_rows_def df_nrows_def df_all_index df_all_row del: upt_Suc cong: map_cong)

lemma wf_df_all: "wf_df (the df_all)"
  by (simp add: wf_df_def df_all_index df_all_columns length_x_all)

lemma df_take_rows:
  assumes "df_take df locs = Some d"
  shows "df_rows d = map (df_row df) locs"
proof -
  from assms have d: "d = \<lparr>index = map (\<lambda>i. index df ! i) locs,
                 columns = map (\<lambda>c. (fst c, map (\<lambda>i. snd c ! i) locs)) (columns df)\<rparr>"
    by (simp add: df_take_def split: if_splits)
  have "df_row d i = df_row df (locs ! i)" if "i < length locs" for i
    using that by (simp add: d df_row_def comp_def)
  then have "df_rows d = map (\<lambda>i. df_row df (locs ! i)) [0..<length locs]"
    by (simp add: df_rows_def df_nrows_def d cong: map_cong)
  also have "\<dots> = map (df_row df) locs"
    by (rule nth_equalityI) simp_all
  finally show ?thesis .
qed

lemma valid_choiceD:
  assumes "valid_choice choice" "n \<le> m"
  shows "length (choice m n) = n" "distinct (choice m n)" "set (choice m n) \<subseteq> {..<m}"
  using assms by (simp_all add: valid_choice_def)

lemma map_nth_upt:
  assumes "set locs \<subseteq> {..<n}"
  shows "map (\<lambda>i. [0..<n] ! i) locs = locs"
  using assms by (intro map_idI) auto

lemma list_all_below:
  assumes "set locs \<subseteq> {..<n}"
  shows "list_all (\<lambda>i. i < n) locs"
  using assms by (auto simp: list_all_iff)

lemma df_nrows_all: "df_nrows (the df_all) = 50"
  by (simp add: df_nrows_def df_all_index)

lemma train_locs:
  assumes "valid_choice choice"
  shows "length (choice 50 40) = 40" "distinct (choice 50 40)"
    "set (choice 50 40) \<subseteq> {..<50}"
  using valid_choiceD[OF assms, of 40 50] by simp_all

lemma df_train_take: "df_train choice = df_take (the df_all) (choice 50 40)"
  by (simp add: df_train_def bind_df_all df_sample_def df_nrows_all sample_size_train)

lemma df_train_eq:
  assumes "valid_choice choice"
  shows "df_train choice = Some \<lparr>index = choice 50 40,
           columns = map (\<lambda>c. (fst c, map (\<lambda>i. snd c ! i) (choice 50 40))) (columns (the df_all))\<rparr>"
  using train_locs(3)[OF assms] map_nth_upt[OF train_locs(3)[OF assms]]
    list_all_below[OF train_locs(3)[OF assms]]
  by (simp add: df_train_take df_take_def df_nrows_all df_all_index)

lemma df_validation_take:
  assumes "valid_choice choice"
  shows "df_validation choice =
     df_take (the df_all) (filter (\<lambda>i. i \<notin> set (choice 50 40)) [0..<50])"
proof -
  have c: "set (choice 50 40) \<subseteq> {..<50}"
    by (rule train_locs[OF assms])
  then have all: "list_all (\<lambda>l. l \<in> set [0..<50]) (choice 50 40)"
    by (auto simp: list_all_iff)
  have "filter (\<lambda>i. [0..<50] ! i \<notin> set (choice 50 40)) [0..<50]
      = filter (\<lambda>i. i \<notin> set (choice 50 40)) [0..<50]"
    by (rule filter_cong[OF refl]) (simp del: upt_Suc)
  then show ?thesis
    using all by (simp add: df_validation_def bind_df_all df_train_eq[OF assms] df_drop_def
        df_all_index df_nrows_all del: upt_Suc set_upt)
qed

lemma split_mset:
  assumes "distinct locs" "set locs \<subseteq> {..<n}"
  shows "mset locs + mset (filter (\<lambda>i. i \<notin> set locs) [0..<n]) = mset [0..<n]"
proof -
  have "mset locs = mset (filter (\<lambda>i. i \<in> set locs) [0..<n])"
    using assms by (intro set_eq_iff_mset_eq_distinct[THEN iffD1]) auto
  then show ?thesis
    by (simp del: mset_upt)
qed

lemma length_rest:
  assumes "distinct locs" "set locs \<subseteq> {..<n}"
  shows "length (filter (\<lambda>i. i \<notin> set locs) [0..<n]) = n - length locs"
proof -
  have "size (mset locs + mset (filter (\<lambda>i. i \<notin> set locs) [0..<n])) = size (mset [0..<n])"
    using split_mset[OF assms] by simp
  then show ?thesis by (simp del: mset_upt mset_filter)
qed

lemma df_take_all:
  assumes "set locs \<subseteq> {..<50}"
  shows "df_take (the df_all) locs = Some \<lparr>index = locs,
           columns = map (\<lambda>c. (fst c, map (\<lambda>i. snd c ! i) locs)) (columns (the df_all))\<rparr>"
  using map_nth_upt[OF assms] list_all_below[OF assms]
  by (simp add: df_take_def df_nrows_all df_all_index)

lemma rows_split:
  assumes "distinct locs" "set locs \<subseteq> {..<50}"
    and "df_take (the df_all) locs = Some tr"
    and "df_take (the df_all) (filter (\<lambda>i. i \<notin> set locs) [0..<50]) = Some va"
  shows "mset (df_rows tr) + mset (df_rows va) = mset (df_rows (the df_all))"
proof -
  let ?rest = "filter (\<lambda>i. i \<notin> set locs) [0..<50]"
  have "mset (df_rows tr) + mset (df_rows va)
      = image_mset (df_row (the df_all)) (mset locs + mset ?rest)"
    by (simp add: df_take_rows[OF assms(3)] df_take_rows[OF assms(4)] del: mset_filter mset_upt)
  also have "\<dots> = image_mset (df_row (the df_all)) (mset [0..<50])"
    by (simp only: split_mset[OF assms(1,2)])
  also have "\<dots> = mset (df_rows (the df_all))"
    by (simp add: df_rows_def df_nrows_all del: mset_upt)
  finally show ?thesis .
qed

text \<open>
  C7. The split partitions the table: for every sample the random generator can draw,
  the training frame is 40 of the 50 rows (80 percent), the validation frame the 10 others;
  the labels of the table are distinct, the two frames share no label, their labels
  together are the table's, and their rows together are the rows of the table.
\<close>

theorem train_validation_split:
  assumes "valid_choice choice"
  shows "\<exists>df tr va. df_all = Some df
           \<and> df_train choice = Some tr \<and> df_validation choice = Some va
           \<and> sample_size train_frac (df_nrows df) = 40
           \<and> df_nrows df = 50 \<and> df_nrows tr = 40 \<and> df_nrows va = 10
           \<and> distinct (index df)
           \<and> set (index tr) \<inter> set (index va) = {}
           \<and> set (index tr) \<union> set (index va) = set (index df)
           \<and> mset (df_rows tr) + mset (df_rows va) = mset (df_rows df)"
proof -
  let ?locs = "choice 50 40"
  let ?rest = "filter (\<lambda>i. i \<notin> set ?locs) [0..<50]"
  note c = train_locs[OF assms]
  have r: "set ?rest \<subseteq> {..<50}" by auto
  define tr where "tr = \<lparr>index = ?locs,
           columns = map (\<lambda>c. (fst c, map (\<lambda>i. snd c ! i) ?locs)) (columns (the df_all))\<rparr>"
  define va where "va = \<lparr>index = ?rest,
           columns = map (\<lambda>c. (fst c, map (\<lambda>i. snd c ! i) ?rest)) (columns (the df_all))\<rparr>"
  have t1: "df_take (the df_all) ?locs = Some tr"
    unfolding tr_def by (rule df_take_all[OF c(3)])
  have t2: "df_take (the df_all) ?rest = Some va"
    unfolding va_def by (rule df_take_all[OF r])
  have 1: "df_train choice = Some tr"
    by (simp add: df_train_take t1)
  have 2: "df_validation choice = Some va"
    by (simp only: df_validation_take[OF assms] t2)
  have 3: "df_nrows tr = 40"
    by (simp add: df_nrows_def tr_def c(1))
  have 4: "df_nrows va = 10"
    by (simp add: df_nrows_def va_def length_rest[OF c(2,3)] c(1) del: upt_Suc)
  have 5: "set (index tr) \<inter> set (index va) = {}"
    by (auto simp: tr_def va_def)
  have 6: "set (index tr) \<union> set (index va) = set (index (the df_all))"
    using c(3) by (auto simp: tr_def va_def df_all_index)
  have 7: "mset (df_rows tr) + mset (df_rows va) = mset (df_rows (the df_all))"
    by (rule rows_split[OF c(2,3) t1 t2])
  have 8: "distinct (index (the df_all))"
    by (simp add: df_all_index del: upt_Suc)
  have 0: "df_all = Some (the df_all)"
    by (simp add: df_all_Some)
  have 9: "sample_size train_frac (df_nrows (the df_all)) = 40" "df_nrows (the df_all) = 50"
    by (simp_all add: sample_size_train df_nrows_all)
  from 0 1 2 3 4 5 6 7 8 9 show ?thesis
    by (intro exI[of _ "the df_all"] exI[of _ tr] exI[of _ va] conjI)
qed

lemma valid_choice_last:
  "valid_choice (\<lambda>m n. rev [m - n..<m])"
  by (auto simp: valid_choice_def)

theorem train_validation_split_witness:
  "\<exists>df tr va. df_all = Some df
           \<and> df_train (\<lambda>m n. rev [m - n..<m]) = Some tr
           \<and> df_validation (\<lambda>m n. rev [m - n..<m]) = Some va
           \<and> sample_size train_frac (df_nrows df) = 40
           \<and> df_nrows df = 50 \<and> df_nrows tr = 40 \<and> df_nrows va = 10
           \<and> distinct (index df)
           \<and> set (index tr) \<inter> set (index va) = {}
           \<and> set (index tr) \<union> set (index va) = set (index df)
           \<and> mset (df_rows tr) + mset (df_rows va) = mset (df_rows df)"
  by (rule train_validation_split[OF valid_choice_last])

text \<open>
  C6. The table has the 50 rows \<open>(x, sin x)\<close>, labelled \<open>0, ..., 49\<close>, where \<open>x\<close> runs over
  the 50 evenly spaced points \<open>i * (2\<pi> / 49)\<close> from \<open>0\<close> to \<open>2\<pi>\<close> inclusive.
\<close>

theorem df_all_sine_table:
  "df_all = Some \<lparr>index = [0..<50], columns = [(''x'', x_all), (''y'', y_all)]\<rparr>
   \<and> length x_all = 50 \<and> hd x_all = 0 \<and> last x_all = 2 * pi
   \<and> x_all = map (\<lambda>i. real i * (2 * pi / 49)) [0..<50]
   \<and> y_all = map sin x_all
   \<and> df_rows \<lparr>index = [0..<50], columns = [(''x'', x_all), (''y'', y_all)]\<rparr>
       = map (\<lambda>i. (i, [real i * (2 * pi / 49), sin (real i * (2 * pi / 49))])) [0..<50]"
proof -
  have "last x_all = 2 * pi"
    by (simp add: x_all_def np_linspace_def num_points_def Let_def)
  moreover have "hd x_all = 0"
    by (simp add: x_all_def np_linspace_def num_points_def Let_def upt_rec hd_append)
  moreover have "df_rows \<lparr>index = [0..<50], columns = [(''x'', x_all), (''y'', y_all)]\<rparr>
       = map (\<lambda>i. (i, [real i * (2 * pi / 49), sin (real i * (2 * pi / 49))])) [0..<50]"
    using df_all_rows by (simp only: df_all_Some option.sel y_all_def np_sin_def)
  moreover have "df_all = Some \<lparr>index = [0..<50], columns = [(''x'', x_all), (''y'', y_all)]\<rparr>"
    by (simp only: df_all_Some y_all_def np_sin_def)
  moreover note x_all_eq length_x_all
  moreover have "y_all = map sin x_all"
    by (simp add: y_all_def np_sin_def)
  ultimately show ?thesis
    by (intro conjI)
qed

lemma py_range_40: "py_range 40 32 = [0, 32]"
  by (simp add: py_range_def upt_rec)

lemma py_range_10: "py_range 10 32 = [0]"
  by (simp add: py_range_def upt_rec)

lemma locations_40:
  assumes "length seq = 40" "distinct seq"
  shows "sorted_division_locations seq 32 = [0, 32, 40]"
proof -
  have "seq ! 31 \<noteq> seq ! 32"
    using assms by (simp add: nth_eq_iff_index_eq)
  then have "skip_equal seq 32 = 32"
    by (subst skip_equal.simps) simp
  then show ?thesis
    by (simp add: sorted_division_locations_def py_range_40 assms(1) Let_def)
qed

lemma locations_10:
  assumes "length seq = 10"
  shows "sorted_division_locations seq 32 = [0, 10]"
  by (simp add: sorted_division_locations_def py_range_10 assms Let_def)

lemma sort_index_props:
  shows "length (index (df_sort_index d)) = length (index d)"
    and "distinct (index d) \<Longrightarrow> distinct (index (df_sort_index d))"
    and "map fst (columns (df_sort_index d)) = map fst (columns d)"
proof -
  let ?locs = "sort_key (\<lambda>i. index d ! i) [0..<df_nrows d]"
  show "length (index (df_sort_index d)) = length (index d)"
    by (simp add: df_sort_index_def df_nrows_def Let_def)
  show "map fst (columns (df_sort_index d)) = map fst (columns d)"
    by (simp add: df_sort_index_def Let_def comp_def)
  assume d: "distinct (index d)"
  have "mset (map (\<lambda>i. index d ! i) ?locs) = mset (map (\<lambda>i. index d ! i) [0..<length (index d)])"
    by (simp only: mset_map mset_sort df_nrows_def)
  also have "\<dots> = mset (index d)"
    by (simp only: map_nth)
  finally have "mset (index (df_sort_index d)) = mset (index d)"
    by (simp add: df_sort_index_def Let_def)
  then show "distinct (index (df_sort_index d))"
    using d mset_eq_imp_distinct_iff by blast
qed

lemma from_pandas_40:
  assumes "length (index d) = 40" "distinct (index d)"
  shows "\<exists>d'. from_pandas d 32 = Some [df_slice d' 0 32, df_slice d' 32 40]
           \<and> length (index d') = 40 \<and> map fst (columns d') = map fst (columns d)
           \<and> (wf_df d \<longrightarrow> wf_df d')"
proof -
  define d' where "d' = (if sorted (index d) then d else df_sort_index d)"
  have l: "length (index d') = 40" and di: "distinct (index d')"
    and c: "map fst (columns d') = map fst (columns d)"
    using assms by (simp_all add: d'_def sort_index_props)
  have w: "wf_df d \<longrightarrow> wf_df d'"
    by (simp add: d'_def wf_df_def df_sort_index_def list_all_iff Let_def df_nrows_def)
  have "from_pandas d 32 = Some [df_slice d' 0 32, df_slice d' 32 40]"
    using assms(1) locations_40[OF l di]
    by (simp add: from_pandas_def df_nrows_def Let_def d'_def[symmetric])
  with l c w show ?thesis by blast
qed

lemma from_pandas_10:
  assumes "length (index d) = 10"
  shows "\<exists>d'. from_pandas d 32 = Some [df_slice d' 0 10]
           \<and> length (index d') = 10 \<and> map fst (columns d') = map fst (columns d)
           \<and> (wf_df d \<longrightarrow> wf_df d')"
proof -
  define d' where "d' = (if sorted (index d) then d else df_sort_index d)"
  have l: "length (index d') = 10"
    and c: "map fst (columns d') = map fst (columns d)"
    using assms by (simp_all add: d'_def sort_index_props)
  have w: "wf_df d \<longrightarrow> wf_df d'"
    by (simp add: d'_def wf_df_def df_sort_index_def list_all_iff Let_def df_nrows_def)
  have "from_pandas d 32 = Some [df_slice d' 0 10]"
    using assms(1) locations_10[OF l]
    by (simp add: from_pandas_def df_nrows_def Let_def d'_def[symmetric])
  with l c w show ?thesis by blast
qed

lemma df_slice_props:
  shows "map fst (columns (df_slice d i j)) = map fst (columns d)"
    and "df_nrows (df_slice d i j) = min (j - i) (length (index d) - i)"
    and "wf_df d \<Longrightarrow> wf_df (df_slice d i j)"
  by (simp_all add: df_slice_def comp_def df_nrows_def wf_df_def list_all_iff)

lemma df_take_wf:
  assumes "df_take d locs = Some t"
  shows "wf_df t" "map fst (columns t) = map fst (columns d)" "index t = map (\<lambda>i. index d ! i) locs"
  using assms by (auto simp: df_take_def wf_df_def list_all_iff comp_def split: if_splits)

lemma map_of_column:
  assumes "k \<in> set (map fst cs)"
  shows "\<exists>v. map_of cs k = Some v \<and> (k, v) \<in> set cs"
  using assms by (induction cs) auto

lemma those_map_Some:
  assumes "\<And>x. x \<in> set xs \<Longrightarrow> f x = Some (g x)"
  shows "those (map f xs) = Some (map g xs)"
  using assms by (induction xs) simp_all

lemma ddf_column_Some:
  assumes "\<And>p. p \<in> set ddf \<Longrightarrow> k \<in> set (map fst (columns p))"
  shows "ddf_column ddf k = Some (map (\<lambda>p. the (map_of (columns p) k)) ddf)"
  unfolding ddf_column_def
proof (rule those_map_Some)
  fix p assume "p \<in> set ddf"
  from map_of_column[OF assms[OF this]]
  show "map_of (columns p) k = Some (the (map_of (columns p) k))" by auto
qed

lemma add_scaled_x_Some:
  assumes "\<And>p. p \<in> set ddf \<Longrightarrow> ''x'' \<in> set (map fst (columns p))"
  shows "add_scaled_x sc ddf
     = Some (map (\<lambda>p. df_setitem p ''scaled_x''
                        (scaler_transform sc (the (map_of (columns p) ''x'')))) ddf)"
  unfolding add_scaled_x_def
proof (rule those_map_Some)
  fix p assume "p \<in> set ddf"
  from map_of_column[OF assms[OF this]]
  show "map_option (\<lambda>xs. df_setitem p ''scaled_x'' (scaler_transform sc xs))
          (map_of (columns p) ''x'')
        = Some (df_setitem p ''scaled_x'' (scaler_transform sc (the (map_of (columns p) ''x''))))"
    by auto
qed

lemma df_setitem_nrows: "df_nrows (df_setitem p k vs) = df_nrows p"
  by (simp add: df_setitem_def df_nrows_def)

lemma ddf_train_0_shape:
  assumes "valid_choice choice"
  shows "\<exists>d'. ddf_train_0 choice = Some [df_slice d' 0 32, df_slice d' 32 40]
           \<and> length (index d') = 40 \<and> map fst (columns d') = [''x'', ''y''] \<and> wf_df d'"
proof -
  note c = train_locs[OF assms]
  obtain tr where tr: "df_train choice = Some tr" "df_take (the df_all) (choice 50 40) = Some tr"
    using df_train_eq[OF assms] by (simp add: df_train_take)
  have i: "index tr = choice 50 40"
    using df_take_all[OF c(3)] tr(2) by simp
  have l: "length (index tr) = 40" and di: "distinct (index tr)"
    by (simp_all add: i c)
  from from_pandas_40[OF l di] obtain d' where
    d: "from_pandas tr 32 = Some [df_slice d' 0 32, df_slice d' 32 40]"
      "length (index d') = 40" "map fst (columns d') = map fst (columns tr)"
      "wf_df tr \<longrightarrow> wf_df d'"
    by blast
  have 1: "ddf_train_0 choice = Some [df_slice d' 0 32, df_slice d' 32 40]"
    by (simp add: ddf_train_0_def tr(1) batch_size_def d(1))
  have 2: "map fst (columns d') = [''x'', ''y'']"
    by (simp add: d(3) df_take_wf(2)[OF tr(2)] df_all_columns)
  have 3: "wf_df d'"
    using d(4) df_take_wf(1)[OF tr(2)] by simp
  from 1 2 3 d(2) show ?thesis by (intro exI[of _ d']) simp
qed

lemma ddf_validation_0_shape:
  assumes "valid_choice choice"
  shows "\<exists>d'. ddf_validation_0 choice = Some [df_slice d' 0 10]
           \<and> length (index d') = 10 \<and> map fst (columns d') = [''x'', ''y''] \<and> wf_df d'"
proof -
  note c = train_locs[OF assms]
  let ?rest = "filter (\<lambda>i. i \<notin> set (choice 50 40)) [0..<50]"
  have r: "set ?rest \<subseteq> {..<50}" by auto
  obtain va where va: "df_take (the df_all) ?rest = Some va" "index va = ?rest"
    using df_take_all[OF r] by simp
  have l: "length (index va) = 10"
    by (simp add: va(2) length_rest[OF c(2,3)] c(1) del: upt_Suc)
  from from_pandas_10[OF l] obtain d' where
    d: "from_pandas va 32 = Some [df_slice d' 0 10]"
      "length (index d') = 10" "map fst (columns d') = map fst (columns va)"
      "wf_df va \<longrightarrow> wf_df d'"
    by blast
  have "df_validation choice = Some va"
    by (simp only: df_validation_take[OF assms] va(1))
  then have 1: "ddf_validation_0 choice = Some [df_slice d' 0 10]"
    by (simp add: ddf_validation_0_def batch_size_def d(1))
  have 2: "map fst (columns d') = [''x'', ''y'']"
    by (simp add: d(3) df_take_wf(2)[OF va(1)] df_all_columns)
  have 3: "wf_df d'"
    using d(4) df_take_wf(1)[OF va(1)] by simp
  from 1 2 3 d(2) show ?thesis by (intro exI[of _ d']) simp
qed

lemma column_length:
  assumes "wf_df p" "map_of (columns p) k = Some v"
  shows "length v = df_nrows p"
proof -
  from assms(2) have "(k, v) \<in> set (columns p)" by (rule map_of_SomeD)
  with assms(1) show ?thesis
    by (auto simp: wf_df_def list_all_iff df_nrows_def)
qed

lemma scaler_fit_Some:
  assumes "xs \<noteq> []"
  shows "\<exists>sc. scaler_fit xs = Some sc"
  using assms by (simp add: scaler_fit_def Let_def)

lemma scaler_Some:
  assumes "valid_choice choice"
  shows "\<exists>sc. scaler choice = Some sc"
proof -
  from ddf_train_0_shape[OF assms] obtain d' where
    d: "ddf_train_0 choice = Some [df_slice d' 0 32, df_slice d' 32 40]"
      "length (index d') = 40" "map fst (columns d') = [''x'', ''y'']" "wf_df d'"
    by auto
  let ?p = "df_slice d' 0 32"
  let ?q = "df_slice d' 32 40"
  have cp: "''x'' \<in> set (map fst (columns ?p))" and cq: "''x'' \<in> set (map fst (columns ?q))"
    by (simp_all add: df_slice_props(1) d(3))
  from map_of_column[OF cp] obtain v where v: "map_of (columns ?p) ''x'' = Some v"
    by blast
  from map_of_column[OF cq] obtain u where u: "map_of (columns ?q) ''x'' = Some u"
    by blast
  have "length v = df_nrows ?p"
    by (rule column_length[OF df_slice_props(3)[OF d(4)] v])
  then have "v \<noteq> []"
    by (auto simp: df_slice_props(2) d(2))
  then have "v @ u \<noteq> []" by simp
  from scaler_fit_Some[OF this] obtain sc where "scaler_fit (v @ u) = Some sc"
    by blast
  then have "scaler choice = Some sc"
    by (simp add: scaler_def d(1) ddf_column_def v u)
  then show ?thesis by blast
qed

lemma ddf_frames:
  assumes "valid_choice choice"
  shows "\<exists>d' e' sc.
           scaler choice = Some sc
         \<and> ddf_train choice = Some (map (\<lambda>p. df_setitem p ''scaled_x''
                        (scaler_transform sc (the (map_of (columns p) ''x''))))
              [df_slice d' 0 32, df_slice d' 32 40])
         \<and> ddf_validation choice = Some (map (\<lambda>p. df_setitem p ''scaled_x''
                        (scaler_transform sc (the (map_of (columns p) ''x''))))
              [df_slice e' 0 10])
         \<and> length (index d') = 40 \<and> length (index e') = 10
         \<and> map fst (columns d') = [''x'', ''y''] \<and> map fst (columns e') = [''x'', ''y'']"
proof -
  from ddf_train_0_shape[OF assms] obtain d' where
    d: "ddf_train_0 choice = Some [df_slice d' 0 32, df_slice d' 32 40]"
      "length (index d') = 40" "map fst (columns d') = [''x'', ''y'']"
    by auto
  from ddf_validation_0_shape[OF assms] obtain e' where
    e: "ddf_validation_0 choice = Some [df_slice e' 0 10]"
      "length (index e') = 10" "map fst (columns e') = [''x'', ''y'']"
    by auto
  from scaler_Some[OF assms] obtain sc where sc: "scaler choice = Some sc"
    by blast
  have x: "''x'' \<in> set (map fst (columns (df_slice d' i j)))"
    "''x'' \<in> set (map fst (columns (df_slice e' i j)))" for i j
    by (simp_all only: df_slice_props(1) d(3) e(3)) simp_all
  have cd: "\<And>p. p \<in> set [df_slice d' 0 32, df_slice d' 32 40]
       \<Longrightarrow> ''x'' \<in> set (map fst (columns p))"
    using x(1) by auto
  have ce: "\<And>p. p \<in> set [df_slice e' 0 10] \<Longrightarrow> ''x'' \<in> set (map fst (columns p))"
    using x(2) by auto
  have t: "ddf_train choice = Some (map (\<lambda>p. df_setitem p ''scaled_x''
                        (scaler_transform sc (the (map_of (columns p) ''x''))))
              [df_slice d' 0 32, df_slice d' 32 40])"
    using add_scaled_x_Some[of "[df_slice d' 0 32, df_slice d' 32 40]" sc, OF cd]
    by (simp add: ddf_train_def d(1) sc)
  have v: "ddf_validation choice = Some (map (\<lambda>p. df_setitem p ''scaled_x''
                        (scaler_transform sc (the (map_of (columns p) ''x''))))
              [df_slice e' 0 10])"
    using add_scaled_x_Some[of "[df_slice e' 0 10]" sc, OF ce]
    by (simp add: ddf_validation_def e(1) sc)
  from sc t v d(2,3) e(2,3) show ?thesis
    by (intro exI[of _ d'] exI[of _ e'] exI[of _ sc] conjI)
qed

lemma map_of_replace_same:
  assumes "map_of cols name \<noteq> None"
  shows "map_of (map (\<lambda>c. if fst c = name then (name, vs) else c) cols) name = Some vs"
  using assms by (induction cols) auto

lemma df_setitem_same_column:
  "map_of (columns (df_setitem df name vs)) name = Some vs"
  by (auto simp: df_setitem_def map_of_replace_same map_add_def)

lemma map_of_replace_other:
  assumes "k \<noteq> name"
  shows "map_of (map (\<lambda>c. if fst c = name then (name, vs) else c) cols) k = map_of cols k"
  using assms by (induction cols) auto

lemma df_setitem_other_column:
  assumes "k \<noteq> name"
  shows "map_of (columns (df_setitem df name vs)) k = map_of (columns df) k"
  using assms
  by (auto simp: df_setitem_def map_of_replace_other map_add_def split: option.splits)

text \<open>
  The column \<open>scaled_x\<close> of every partition of the two frames is the column \<open>x\<close> of that
  partition, standardised with the mean and the deviation of the training data.
\<close>

lemma scaled_x_is_standardized:
  assumes "valid_choice choice"
  shows "\<exists>sc tr va. scaler choice = Some sc
           \<and> ddf_train choice = Some tr \<and> ddf_validation choice = Some va
           \<and> list_all (\<lambda>part. \<exists>xs. map_of (columns part) ''x'' = Some xs
                  \<and> map_of (columns part) ''scaled_x''
                      = Some (map (\<lambda>x. (x - sc_mean sc) / sc_scale sc) xs)) (tr @ va)"
proof -
  from ddf_frames[OF assms] obtain d' e' sc where
    f: "scaler choice = Some sc"
      "ddf_train choice = Some (map (\<lambda>p. df_setitem p ''scaled_x''
                        (scaler_transform sc (the (map_of (columns p) ''x''))))
              [df_slice d' 0 32, df_slice d' 32 40])"
      "ddf_validation choice = Some (map (\<lambda>p. df_setitem p ''scaled_x''
                        (scaler_transform sc (the (map_of (columns p) ''x''))))
              [df_slice e' 0 10])"
      "map fst (columns d') = [''x'', ''y'']" "map fst (columns e') = [''x'', ''y'']"
    by auto
  have x: "\<exists>xs. map_of (columns (df_slice d' i j)) ''x'' = Some xs"
    "\<exists>xs. map_of (columns (df_slice e' i j)) ''x'' = Some xs" for i j
    using map_of_column[of "''x''" "columns (df_slice d' i j)"]
      map_of_column[of "''x''" "columns (df_slice e' i j)"]
    by (auto simp only: df_slice_props(1) f(4,5) list.set insert_iff simp_thms)
  have p: "\<exists>xs. map_of (columns (df_setitem q ''scaled_x''
                    (scaler_transform sc (the (map_of (columns q) ''x''))))) ''x'' = Some xs
         \<and> map_of (columns (df_setitem q ''scaled_x''
                    (scaler_transform sc (the (map_of (columns q) ''x''))))) ''scaled_x''
             = Some (map (\<lambda>x. (x - sc_mean sc) / sc_scale sc) xs)"
    if "\<exists>xs. map_of (columns q) ''x'' = Some xs" for q
    using that
    by (auto simp: df_setitem_same_column df_setitem_other_column scaler_transform_def)
  have "list_all (\<lambda>part. \<exists>xs. map_of (columns part) ''x'' = Some xs
                  \<and> map_of (columns part) ''scaled_x''
                      = Some (map (\<lambda>x. (x - sc_mean sc) / sc_scale sc) xs))
          (map (\<lambda>p. df_setitem p ''scaled_x''
                        (scaler_transform sc (the (map_of (columns p) ''x''))))
              [df_slice d' 0 32, df_slice d' 32 40]
           @ map (\<lambda>p. df_setitem p ''scaled_x''
                        (scaler_transform sc (the (map_of (columns p) ''x''))))
              [df_slice e' 0 10])"
    by (simp add: p x)
  with f(1,2,3) show ?thesis
    by blast
qed

text \<open>
  C10. Whatever sample the generator draws, the training frame has exactly two partitions,
  of 32 and 8 rows, and the validation frame one partition of 10 rows: no partition has
  more than \<open>batch_size = 32\<close> rows.
\<close>

theorem partitions_within_batch_size:
  assumes "valid_choice choice"
  shows "\<exists>tr va. ddf_train choice = Some tr \<and> ddf_validation choice = Some va
           \<and> batch_size = 32
           \<and> map df_nrows tr = [32, 8] \<and> map df_nrows va = [10]
           \<and> list_all (\<lambda>p. df_nrows p \<le> batch_size) (tr @ va)
           \<and> length tr = 2"
proof -
  from ddf_frames[OF assms] obtain d' e' sc where
    f: "ddf_train choice = Some (map (\<lambda>p. df_setitem p ''scaled_x''
                        (scaler_transform sc (the (map_of (columns p) ''x''))))
              [df_slice d' 0 32, df_slice d' 32 40])"
      "ddf_validation choice = Some (map (\<lambda>p. df_setitem p ''scaled_x''
                        (scaler_transform sc (the (map_of (columns p) ''x''))))
              [df_slice e' 0 10])"
      "length (index d') = 40" "length (index e') = 10"
    by auto
  show ?thesis
    unfolding f(1,2)
    by (simp add: df_setitem_nrows df_slice_props(2) f(3,4) batch_size_def)
qed

theorem partitions_within_batch_size_witness:
  "\<exists>tr va. ddf_train (\<lambda>m n. rev [m - n..<m]) = Some tr
           \<and> ddf_validation (\<lambda>m n. rev [m - n..<m]) = Some va
           \<and> batch_size = 32
           \<and> map df_nrows tr = [32, 8] \<and> map df_nrows va = [10]
           \<and> list_all (\<lambda>p. df_nrows p \<le> batch_size) (tr @ va)
           \<and> length tr = 2"
  by (rule partitions_within_batch_size[OF valid_choice_last])

section \<open>Properties of the network and the loss\<close>

lemma length_vec_mat: "length (vec_mat r m) = ncols m"
  by (simp add: vec_mat_def)

lemma hk_Linear_shape:
  assumes "hk_Linear n lp x = Some h"
  shows "ncols h = n" "nrows h = nrows x" "wf_array h"
  using assms
  by (auto simp: hk_Linear_def nrows_def wf_array_def list_all_iff length_vec_mat
      split: if_splits)

lemma relu_shape:
  shows "ncols (jax_nn_relu a) = ncols a" "nrows (jax_nn_relu a) = nrows a"
    "wf_array a \<Longrightarrow> wf_array (jax_nn_relu a)"
  by (auto simp: jax_nn_relu_def nrows_def wf_array_def list_all_iff)

lemma net_function_shape:
  assumes "net_function params x = Some y"
  shows "ncols y = 1" "nrows y = nrows x" "wf_array y"
proof -
  from assms obtain l0 l1 l2 l3 h0 h1 h2 where
    h: "hk_Linear 50 l0 x = Some h0" "hk_Linear 100 l1 (jax_nn_relu h0) = Some h1"
       "hk_Linear 50 l2 (jax_nn_relu h1) = Some h2" "hk_Linear 1 l3 (jax_nn_relu h2) = Some y"
    by (auto simp: net_function_def split: list.splits Option.bind_splits)
  show "ncols y = 1" "wf_array y"
    using hk_Linear_shape[OF h(4)] by simp_all
  show "nrows y = nrows x"
    using hk_Linear_shape(2)[OF h(1)] hk_Linear_shape(2)[OF h(2)]
      hk_Linear_shape(2)[OF h(3)] hk_Linear_shape(2)[OF h(4)]
    by (simp add: relu_shape)
qed

lemma stretch_id: "length xs = n \<Longrightarrow> stretch n xs = xs"
  by (simp add: stretch_def)

lemma broadcast_to_id:
  assumes "wf_array a"
  shows "rows (broadcast_to (nrows a) (ncols a) a) = rows a"
proof -
  have "map (stretch (ncols a)) (rows a) = rows a"
    using assms by (intro map_idI) (auto simp: wf_array_def list_all_iff stretch_id)
  then show ?thesis
    by (simp add: broadcast_to_def stretch_id nrows_def)
qed

lemma jnp_subtract_same_shape:
  assumes "wf_array a1" "wf_array a2" "nrows a1 = nrows a2" "ncols a1 = ncols a2"
  shows "jnp_subtract a1 a2 = Some (Array2 (ncols a1) (map2 (map2 (-)) (rows a1) (rows a2)))"
  using assms broadcast_to_id[OF assms(1)] broadcast_to_id[OF assms(2)]
  by (simp add: jnp_subtract_def broadcast_dim_def)

lemma column_row:
  assumes "length r = 1"
  shows "r = [hd r]"
  using assms by (cases r) auto

lemma concat_singletons: "concat (map (\<lambda>x. [f x]) xs) = map f xs"
  by (induction xs) simp_all

lemma squared_differences_column:
  assumes "wf_array a1" "wf_array a2" "ncols a1 = 1" "ncols a2 = 1" "nrows a1 = n" "nrows a2 = n"
  shows "flatten (jnp_square (Array2 1 (map2 (map2 (-)) (rows a1) (rows a2))))
       = map (\<lambda>i. (hd (rows a1 ! i) - hd (rows a2 ! i))\<^sup>2) [0..<n]"
proof -
  have l: "length (rows a1) = n" "length (rows a2) = n"
    using assms(5,6) by (simp_all add: nrows_def)
  have r: "rows a1 ! i = [hd (rows a1 ! i)]" "rows a2 ! i = [hd (rows a2 ! i)]" if "i < n" for i
    using that assms(1-4) l
    by (auto intro!: column_row simp: wf_array_def list_all_iff)
  have "map (map (\<lambda>v. v\<^sup>2)) (map2 (map2 (-)) (rows a1) (rows a2))
      = map (\<lambda>i. [(hd (rows a1 ! i) - hd (rows a2 ! i))\<^sup>2]) [0..<n]"
  proof (rule nth_equalityI)
    show "length (map (map (\<lambda>v. v\<^sup>2)) (map2 (map2 (-)) (rows a1) (rows a2)))
        = length (map (\<lambda>i. [(hd (rows a1 ! i) - hd (rows a2 ! i))\<^sup>2]) [0..<n])"
      by (simp add: l)
  next
    fix i assume "i < length (map (map (\<lambda>v. v\<^sup>2)) (map2 (map2 (-)) (rows a1) (rows a2)))"
    then have i: "i < n" by (simp add: l)
    have "map2 (-) (rows a1 ! i) (rows a2 ! i) = [hd (rows a1 ! i) - hd (rows a2 ! i)]"
      by (subst r(1)[OF i], subst r(2)[OF i]) simp
    then show "map (map (\<lambda>v. v\<^sup>2)) (map2 (map2 (-)) (rows a1) (rows a2)) ! i
        = map (\<lambda>i. [(hd (rows a1 ! i) - hd (rows a2 ! i))\<^sup>2]) [0..<n] ! i"
      using i by (simp add: l)
  qed
  then show ?thesis
    by (simp add: flatten_def jnp_square_def concat_singletons)
qed

lemma loss_function_column:
  assumes "net_transform_apply params x = Some y_pred"
    and "wf_array y_true" "ncols y_true = 1" "nrows y_true = nrows x" "0 < nrows x"
  shows "ncols y_pred = 1 \<and> nrows y_pred = nrows x
       \<and> loss_function params x y_true
         = Some ((\<Sum>i<nrows x. (hd (rows y_true ! i) - hd (rows y_pred ! i))\<^sup>2) / real (nrows x))"
proof -
  have s: "ncols y_pred = 1" "nrows y_pred = nrows x" "wf_array y_pred"
    using net_function_shape[of params x y_pred] assms(1)
    by (simp_all add: net_transform_apply_def)
  have sub: "jnp_subtract y_true y_pred
       = Some (Array2 1 (map2 (map2 (-)) (rows y_true) (rows y_pred)))"
    using jnp_subtract_same_shape[OF assms(2) s(3)] assms(3,4) s(1,2) by simp
  have fl: "flatten (jnp_square (Array2 1 (map2 (map2 (-)) (rows y_true) (rows y_pred))))
       = map (\<lambda>i. (hd (rows y_true ! i) - hd (rows y_pred ! i))\<^sup>2) [0..<nrows x]"
    by (rule squared_differences_column[OF assms(2) s(3) assms(3) s(1) assms(4) s(2)])
  have su: "sum_list (map (\<lambda>i. (hd (rows y_true ! i) - hd (rows y_pred ! i))\<^sup>2) [0..<nrows x])
      = (\<Sum>i<nrows x. (hd (rows y_true ! i) - hd (rows y_pred ! i))\<^sup>2)"
    by (simp add: interv_sum_list_conv_sum_set_nat atLeast0LessThan)
  have avg: "jnp_average (jnp_square (Array2 1 (map2 (map2 (-)) (rows y_true) (rows y_pred))))
      = Some ((\<Sum>i<nrows x. (hd (rows y_true ! i) - hd (rows y_pred ! i))\<^sup>2) / real (nrows x))"
    unfolding jnp_average_def Let_def fl su[symmetric] using assms(5) by simp
  have "loss_function params x y_true
      = Some ((\<Sum>i<nrows x. (hd (rows y_true ! i) - hd (rows y_pred ! i))\<^sup>2) / real (nrows x))"
    by (simp add: loss_function_def assms(1) mean_squared_error_def sub avg del: One_nat_def)
  with s(1,2) show ?thesis by simp
qed

lemma map2_replicate_right:
  "map2 f r (replicate (length r) z) = map (\<lambda>ri. f ri z) r"
  by (induction r) simp_all

lemma vec_mat_zero:
  assumes "length r = k"
  shows "vec_mat r (Array2 n (replicate k (replicate n 0))) = replicate n 0"
proof -
  have "sum_list (map2 (\<lambda>ri mi. ri * mi ! j) r (replicate k (replicate n 0))) = 0"
    if "j < n" for j
    using that unfolding assms[symmetric] map2_replicate_right by simp
  then have "map (\<lambda>j. sum_list (map2 (\<lambda>ri mi. ri * mi ! j) r (replicate k (replicate n 0))))
                [0..<n] = map (\<lambda>j. 0) [0..<n]"
    by (intro map_cong) auto
  then show ?thesis
    by (simp add: vec_mat_def map_replicate_const)
qed

lemma add_zero_list:
  fixes bs :: "real list"
  shows "map2 (+) (replicate (length bs) 0) bs = bs"
  by (induction bs) simp_all

lemma hk_Linear_zero_weights:
  assumes "wf_array x" "ncols x = k" "length bs = n"
  shows "hk_Linear n \<lparr>w = Array2 n (replicate k (replicate n 0)), b = bs\<rparr> x
       = Some (Array2 n (replicate (nrows x) bs))"
proof -
  have "map (\<lambda>r. map2 (+) (vec_mat r (Array2 n (replicate k (replicate n 0)))) bs) (rows x)
      = map (\<lambda>r. bs) (rows x)"
  proof (rule map_cong[OF refl])
    fix r assume "r \<in> set (rows x)"
    then have "length r = k"
      using assms(1,2) by (auto simp: wf_array_def list_all_iff)
    then show "map2 (+) (vec_mat r (Array2 n (replicate k (replicate n 0)))) bs = bs"
      using assms(3) add_zero_list[of bs] by (simp add: vec_mat_zero)
  qed
  then show ?thesis
    using assms by (simp add: hk_Linear_def wf_array_def nrows_def list_all_iff map_replicate_const)
qed

lemma relu_zeros:
  "jax_nn_relu (Array2 n (replicate m (replicate n 0))) = Array2 n (replicate m (replicate n 0))"
  by (simp add: jax_nn_relu_def)

lemma wf_zeros: "wf_array (Array2 n (replicate m (replicate n v)))"
  by (simp add: wf_array_def list_all_iff)

lemma net_function_constant:
  assumes "wf_array x" "ncols x = 1"
  shows "net_function (constant_net c) x = Some (Array2 1 (replicate (nrows x) [c]))"
proof -
  have 0: "hk_Linear 50 \<lparr>w = Array2 50 (replicate 1 (replicate 50 0)), b = replicate 50 0\<rparr> x
      = Some (Array2 50 (replicate (nrows x) (replicate 50 0)))"
    by (rule hk_Linear_zero_weights[OF assms]) simp
  have 1: "hk_Linear 100 \<lparr>w = Array2 100 (replicate 50 (replicate 100 0)), b = replicate 100 0\<rparr>
         (Array2 50 (replicate (nrows x) (replicate 50 0)))
      = Some (Array2 100 (replicate (nrows x) (replicate 100 0)))"
    using hk_Linear_zero_weights[where x="Array2 50 (replicate (nrows x) (replicate 50 0))"
        and k=50 and bs="replicate 100 0" and n=100, OF wf_zeros]
    by (simp add: nrows_def)
  have 2: "hk_Linear 50 \<lparr>w = Array2 50 (replicate 100 (replicate 50 0)), b = replicate 50 0\<rparr>
         (Array2 100 (replicate (nrows x) (replicate 100 0)))
      = Some (Array2 50 (replicate (nrows x) (replicate 50 0)))"
    using hk_Linear_zero_weights[where x="Array2 100 (replicate (nrows x) (replicate 100 0))"
        and k=100 and bs="replicate 50 0" and n=50, OF wf_zeros]
    by (simp add: nrows_def)
  have 3: "hk_Linear 1 \<lparr>w = Array2 1 (replicate 50 (replicate 1 0)), b = [c]\<rparr>
         (Array2 50 (replicate (nrows x) (replicate 50 0)))
      = Some (Array2 1 (replicate (nrows x) [c]))"
    using hk_Linear_zero_weights[where x="Array2 50 (replicate (nrows x) (replicate 50 0))"
        and k=50 and bs="[c]" and n=1, OF wf_zeros]
    by (simp add: nrows_def)
  show ?thesis
    unfolding net_function_def constant_net_def
    by (simp only: list.case 0 1 2 3 relu_zeros Option.bind.bind_lunit)
qed

text \<open>
  C5. On a batch of \<open>n > 0\<close> samples with one target per sample (\<open>y_true\<close> of shape
  \<open>(n, 1)\<close>), whenever the network accepts the parameters and the input, its prediction
  \<open>y_pred\<close> has shape \<open>(n, 1)\<close> and the loss is the mean over the batch of the squared
  differences between target and prediction.
\<close>

theorem loss_function_is_mse:
  assumes "net_transform_apply params x = Some y_pred"
    and "wf_array y_true" "ncols y_true = 1" "nrows y_true = nrows x" "0 < nrows x"
  shows "ncols y_pred = 1 \<and> nrows y_pred = nrows x
       \<and> loss_function params x y_true
         = Some ((\<Sum>i<nrows x. (hd (rows y_true ! i) - hd (rows y_pred ! i))\<^sup>2) / real (nrows x))"
  using assms by (rule loss_function_column)

theorem loss_function_is_mse_witness:
  "ncols (Array2 1 [[1 / 2], [1 / 2]]) = 1
   \<and> nrows (Array2 1 [[1 / 2], [1 / 2]]) = nrows (Array2 1 [[1], [2]])
   \<and> loss_function (constant_net (1 / 2)) (Array2 1 [[1], [2]]) (Array2 1 [[1], [3]])
       = Some (13 / 4)"
proof -
  have a: "net_transform_apply (constant_net (1 / 2)) (Array2 1 [[1], [2]])
         = Some (Array2 1 [[1 / 2], [1 / 2]])"
    using net_function_constant[of "Array2 1 [[1], [2]]" "1 / 2"]
    by (simp add: net_transform_apply_def wf_array_def nrows_def numeral_2_eq_2)
  have b: "wf_array (Array2 1 [[1], [3]])" "ncols (Array2 1 [[1], [3]]) = 1"
    "nrows (Array2 1 [[1], [3]]) = nrows (Array2 1 [[1], [2]])"
    "0 < nrows (Array2 1 [[1], [2]])"
    by (simp_all add: wf_array_def nrows_def)
  show ?thesis
    using loss_function_is_mse[OF a b]
    by (simp add: nrows_def lessThan_Suc power2_eq_square)
qed

section \<open>The prediction wrapper\<close>

lemma hk_Linear_row:
  assumes "hk_Linear n lp x = Some h" "i < nrows x"
  shows "hk_Linear n lp (Array2 (ncols x) [rows x ! i]) = Some (Array2 (ncols h) [rows h ! i])"
  using assms
  by (auto simp: hk_Linear_def nrows_def wf_array_def list_all_iff split: if_splits)

lemma relu_row:
  assumes "i < nrows a"
  shows "jax_nn_relu (Array2 (ncols a) [rows a ! i])
       = Array2 (ncols (jax_nn_relu a)) [rows (jax_nn_relu a) ! i]"
  using assms by (simp add: jax_nn_relu_def nrows_def)

lemma net_function_row:
  assumes "net_function params x = Some y" "i < nrows x"
  shows "net_function params (Array2 (ncols x) [rows x ! i]) = Some (Array2 (ncols y) [rows y ! i])"
proof -
  from assms(1) obtain l0 l1 l2 l3 h0 h1 h2 where
    p: "params = [l0, l1, l2, l3]" and
    h: "hk_Linear 50 l0 x = Some h0" "hk_Linear 100 l1 (jax_nn_relu h0) = Some h1"
       "hk_Linear 50 l2 (jax_nn_relu h1) = Some h2" "hk_Linear 1 l3 (jax_nn_relu h2) = Some y"
    by (auto simp: net_function_def split: list.splits Option.bind_splits)
  have n: "i < nrows h0" "i < nrows h1" "i < nrows h2"
    using assms(2) hk_Linear_shape(2)[OF h(1)] hk_Linear_shape(2)[OF h(2)]
      hk_Linear_shape(2)[OF h(3)]
    by (simp_all add: relu_shape)
  have n': "i < nrows (jax_nn_relu h0)" "i < nrows (jax_nn_relu h1)" "i < nrows (jax_nn_relu h2)"
    using n by (simp_all add: relu_shape)
  show ?thesis
    unfolding p net_function_def
    by (simp only: list.case hk_Linear_row[OF h(1) assms(2)] Option.bind.bind_lunit
        relu_row[OF n(1)] hk_Linear_row[OF h(2) n'(1)]
        relu_row[OF n(2)] hk_Linear_row[OF h(3) n'(2)]
        relu_row[OF n(3)] hk_Linear_row[OF h(4) n'(3)])
qed

lemma column_rows:
  assumes "wf_array y" "ncols y = 1"
  shows "rows y = map (\<lambda>v. [v]) (flatten y)"
proof -
  have "\<forall>r \<in> set rs. length r = 1 \<Longrightarrow> rs = map (\<lambda>v. [v]) (concat rs)" for rs :: "real list list"
  proof (induction rs)
    case Nil
    then show ?case by simp
  next
    case (Cons r rs)
    then have "r = [hd r]" by (simp add: column_row)
    with Cons show ?case by (cases r) auto
  qed
  then show ?thesis
    using assms by (simp add: flatten_def wf_array_def list_all_iff)
qed

lemma df_getitem_column:
  "df_getitem df [k] =
     (case map_of (columns df) k of None \<Rightarrow> None
      | Some col \<Rightarrow> Some \<lparr>index = index df, columns = [(k, col)]\<rparr>)"
  by (simp add: df_getitem_def split: option.splits)

lemma df_values_column:
  "df_values \<lparr>index = ix, columns = [(k, col)]\<rparr>
     = Array2 1 (map (\<lambda>i. [col ! i]) [0..<length ix])"
  by (simp add: df_values_def df_nrows_def)

lemma dask_predict_wrapper_eq:
  "dask_predict_wrapper df params =
     (case map_of (columns df) ''scaled_x'' of None \<Rightarrow> None
      | Some col \<Rightarrow>
          map_option flatten
            (net_function params (Array2 1 (map (\<lambda>i. [col ! i]) [0..<df_nrows df]))))"
  by (simp add: dask_predict_wrapper_def df_getitem_column predict_def net_transform_apply_def
      df_values_column df_nrows_def map_option_case
      split: option.splits Option.bind_splits del: One_nat_def)

text \<open>
  C8. When the wrapper returns, it returns one prediction per row of the partition: the
  partition has a column \<open>scaled_x\<close>, the predictions are the output of the network on the
  \<open>(n, 1)\<close> array of that column, the \<open>i\<close>-th prediction is the output of the network on the
  \<open>i\<close>-th value of that column alone, and the column \<open>x\<close> has no influence on the result.
\<close>

theorem dask_predict_wrapper_per_row:
  assumes "dask_predict_wrapper df params = Some r"
  shows "length r = df_nrows df
       \<and> (\<exists>col. map_of (columns df) ''scaled_x'' = Some col
            \<and> net_transform_apply params (Array2 1 (map (\<lambda>i. [col ! i]) [0..<df_nrows df]))
                = Some (Array2 1 (map (\<lambda>v. [v]) r))
            \<and> (\<forall>i<df_nrows df.
                  net_transform_apply params (Array2 1 [[col ! i]]) = Some (Array2 1 [[r ! i]])))
       \<and> (\<forall>vs. dask_predict_wrapper (df_setitem df ''x'' vs) params = Some r)"
proof -
  let ?n = "df_nrows df"
  from assms obtain col y where
    col: "map_of (columns df) ''scaled_x'' = Some col" and
    y: "net_function params (Array2 1 (map (\<lambda>i. [col ! i]) [0..<?n])) = Some y" and
    r: "r = flatten y"
    by (auto simp: dask_predict_wrapper_eq split: option.splits)
  let ?x = "Array2 1 (map (\<lambda>i. [col ! i]) [0..<?n])"
  have nx: "nrows ?x = ?n" by (simp add: nrows_def)
  note s = net_function_shape[OF y]
  have rows: "rows y = map (\<lambda>v. [v]) r"
    unfolding r by (rule column_rows[OF s(3) s(1)])
  then have yr: "y = Array2 1 (map (\<lambda>v. [v]) r)"
    using s(1) by (cases y) simp
  have len: "length r = ?n"
    using s(2) rows nx by (simp add: nrows_def)
  have row: "net_transform_apply params (Array2 1 [[col ! i]]) = Some (Array2 1 [[r ! i]])"
    if "i < ?n" for i
  proof -
    have "i < nrows ?x" using that nx by simp
    from net_function_row[OF y this] that len show ?thesis
      by (simp add: net_transform_apply_def yr del: One_nat_def)
  qed
  have other: "dask_predict_wrapper (df_setitem df ''x'' vs) params = Some r" for vs
  proof -
    have "map_of (columns (df_setitem df ''x'' vs)) ''scaled_x'' = Some col"
      by (simp add: df_setitem_other_column col)
    then show ?thesis
      by (simp add: dask_predict_wrapper_eq df_setitem_nrows y r del: One_nat_def)
  qed
  have "net_transform_apply params ?x = Some (Array2 1 (map (\<lambda>v. [v]) r))"
    using y yr by (simp add: net_transform_apply_def)
  with len col row other show ?thesis by blast
qed

theorem dask_predict_wrapper_per_row_witness:
  "length [1 / 2, 1 / 2 :: real]
     = df_nrows \<lparr>index = [3, 7], columns = [(''x'', [1, 4]), (''scaled_x'', [-1, 1])]\<rparr>
   \<and> dask_predict_wrapper \<lparr>index = [3, 7], columns = [(''x'', [1, 4]), (''scaled_x'', [-1, 1])]\<rparr>
         (constant_net (1 / 2)) = Some [1 / 2, 1 / 2]
   \<and> dask_predict_wrapper
         (df_setitem \<lparr>index = [3, 7], columns = [(''x'', [1, 4]), (''scaled_x'', [-1, 1])]\<rparr>
            ''x'' [0, 0])
         (constant_net (1 / 2)) = Some [1 / 2, 1 / 2]"
proof -
  let ?df = "\<lparr>index = [3, 7], columns = [(''x'', [1, 4]), (''scaled_x'', [-1, 1])]\<rparr>"
  have "net_function (constant_net (1 / 2)) (Array2 1 [[-1], [1]])
      = Some (Array2 1 (replicate (nrows (Array2 1 [[-1], [1]])) [1 / 2]))"
    by (rule net_function_constant) (simp_all add: wf_array_def)
  then have a: "dask_predict_wrapper ?df (constant_net (1 / 2)) = Some [1 / 2, 1 / 2]"
    by (simp add: dask_predict_wrapper_eq df_nrows_def flatten_def nrows_def upt_rec
        numeral_2_eq_2)
  from dask_predict_wrapper_per_row[OF a] a show ?thesis
    by simp
qed

section \<open>The update step and the training loops\<close>

text \<open>
  C4. The update step returns \<open>(params', opt_state')\<close> exactly when the gradient of the
  loss at \<open>(params, x, y)\<close> is some \<open>grads\<close>, the optimizer turns \<open>grads\<close> and the current
  state into some \<open>updates\<close> and the state \<open>opt_state'\<close>, and \<open>params'\<close> is \<open>params\<close> with
  these updates applied.
\<close>

theorem update_step:
  "update jax_grad params opt_state x y = Some (params', opt_state')
   \<longleftrightarrow> (\<exists>grads updates.
          jax_grad (\<lambda>p. loss_function p x y) params = Some grads
        \<and> optimizer_update grads opt_state = Some (updates, opt_state')
        \<and> apply_updates params updates = Some params')"
  by (auto simp: update_def split: Option.bind_splits)

lemma update_eq_apply_gradient:
  "update jax_grad params opt_state x y =
     do { grads \<leftarrow> jax_grad (\<lambda>p. loss_function p x y) params;
          apply_gradient grads (params, opt_state) }"
  by (simp add: update_def apply_gradient_def)

lemma optimizer_update_count:
  assumes "optimizer_update grads s = Some (updates, s')"
  shows "adam_count s' = adam_count s + 1"
  using assms
  by (auto simp: optimizer_update_def adam_update_def Let_def split: Option.bind_splits)

lemma apply_gradient_count:
  assumes "apply_gradient grads st = Some st'"
  shows "adam_count (snd st') = adam_count (snd st) + 1"
  using assms optimizer_update_count
  by (auto simp: apply_gradient_def split: Option.bind_splits)

text \<open>
  C9. The parameters that \<^verbatim>\<open>initialize_net_function\<close> returns do not depend on the example
  input it draws: they are the parameters the initializer draws from the key 42 for an
  input of one column. So the reset before CASE 2 restores the parameters and the
  optimizer state CASE 1 started from.
\<close>

theorem initialize_net_function_deterministic:
  "initialize_net_function w_init u = initialize_net_function w_init u'
   \<and> initialize_net_function w_init u = init_linears w_init 42 0 1 [50, 100, 50, 1]
   \<and> state_reset w_init u' = state_initial w_init u"
proof -
  have "initialize_net_function w_init v = init_linears w_init 42 0 1 [50, 100, 50, 1]" for v
    by (simp add: initialize_net_function_def net_transform_init_def PRNGKey_def Let_def
        del: init_linears.simps)
  then show ?thesis
    by (simp add: state_reset_def state_initial_def Let_def del: init_linears.simps)
qed

lemma foldl_bind_None:
  "foldl (\<lambda>st a. Option.bind st (f a)) None xs = None"
  by (induction xs) simp_all

lemma case1_batches_fold:
  "case1_batches jax_grad parts st
     = foldl (\<lambda>st part. Option.bind st (batch_update jax_grad part)) (Some st) parts"
proof (induction parts arbitrary: st)
  case Nil
  then show ?case by simp
next
  case (Cons part parts)
  obtain params opt_state where st: "st = (params, opt_state)" by (cases st)
  show ?case
  proof (cases "batch_update jax_grad part st")
    case None
    then have "case1_batches jax_grad (part # parts) st = None"
      by (auto simp: st batch_update_def compute_def Let_def split: Option.bind_splits)
    with None show ?thesis by (simp add: foldl_bind_None)
  next
    case (Some st')
    then have "case1_batches jax_grad (part # parts) st = case1_batches jax_grad parts st'"
      by (auto simp: st batch_update_def compute_def Let_def split: Option.bind_splits)
    with Some Cons.IH[of st'] show ?thesis by simp
  qed
qed

lemma foldl_bind_append:
  "foldl (\<lambda>st a. Option.bind st (f a)) s (xs @ ys)
     = foldl (\<lambda>st a. Option.bind st (f a)) (foldl (\<lambda>st a. Option.bind st (f a)) s xs) ys"
  by simp

lemma case1_epochs_fold:
  "case1_epochs jax_grad ddf epochs st
     = foldl (\<lambda>st part. Option.bind st (batch_update jax_grad part)) (Some st)
         (concat (replicate (length epochs) ddf))"
proof (induction epochs arbitrary: st)
  case Nil
  then show ?case by simp
next
  case (Cons e epochs)
  show ?case
  proof (cases "case1_batches jax_grad ddf st")
    case None
    then show ?thesis
      by (simp add: case1_batches_fold[symmetric] foldl_bind_None)
  next
    case (Some st')
    then show ?thesis
      by (simp add: Cons.IH case1_batches_fold[symmetric])
  qed
qed

text \<open>
  C3. The state after the loop of CASE 1 is the left fold of the update of one batch over
  the partitions of the training frame, in partition order, repeated 200 times, from the
  freshly initialised parameters and optimizer state. Each step of the fold reads the
  columns of one partition only (\<open>batch_update\<close>).
\<close>

theorem case1_is_left_fold:
  "state_after_case1 jax_grad w_init u choice =
     do { ddf \<leftarrow> ddf_train choice;
          foldl (\<lambda>st part. Option.bind st (batch_update jax_grad part))
            (Some (initialize_net_function w_init u,
                   optimizer_init (initialize_net_function w_init u)))
            (concat (replicate 200 ddf)) }"
  by (simp add: state_after_case1_def state_initial_def Let_def case1_epochs_fold
      del: upt_Suc)

section \<open>CASE 2: gradients from the workers\<close>

lemma submit_partitions_eq:
  "submit_partitions params ddf futures
     = futures @ map (\<lambda>part. client_submit part params) ddf"
  by (induction ddf arbitrary: futures) simp_all

lemma aggregate_fold:
  "aggregate results st
     = foldl (\<lambda>st r. Option.bind st (\<lambda>s. Option.bind r (\<lambda>grads. apply_gradient grads s)))
         (Some st) (map snd results)"
proof (induction results arbitrary: st)
  case Nil
  then show ?case by simp
next
  case (Cons fr results)
  obtain fut r where fr: "fr = (fut, r)" by (cases fr)
  obtain params opt_state where st: "st = (params, opt_state)" by (cases st)
  let ?step = "\<lambda>st r. Option.bind st (\<lambda>s. Option.bind r (\<lambda>grads. apply_gradient grads s))"
  have none: "foldl ?step None xs = None" for xs
    by (induction xs) simp_all
  show ?case
  proof (cases "Option.bind r (\<lambda>grads. apply_gradient grads st)")
    case None
    then have "aggregate (fr # results) st = None"
      by (auto simp: fr st apply_gradient_def split: Option.bind_splits)
    with None show ?thesis by (simp add: fr none)
  next
    case (Some st')
    then have "aggregate (fr # results) st = aggregate results st'"
      by (auto simp: fr st apply_gradient_def split: Option.bind_splits)
    with Some Cons.IH[of st'] show ?thesis by (simp add: fr)
  qed
qed

lemma fold_results_those:
  "foldl (\<lambda>st r. Option.bind st (\<lambda>s. Option.bind r (\<lambda>grads. apply_gradient grads s)))
      s rs
   = do { gs \<leftarrow> those rs;
          foldl (\<lambda>st grads. Option.bind st (apply_gradient grads)) s gs }"
proof (induction rs arbitrary: s)
  case Nil
  then show ?case by simp
next
  case (Cons r rs)
  let ?step = "\<lambda>st r. Option.bind st (\<lambda>s. Option.bind r (\<lambda>grads. apply_gradient grads s))"
  have none: "foldl ?step None xs = None" for xs
    by (induction xs) simp_all
  show ?case
  proof (cases r)
    case None
    then show ?thesis
      by (cases s) (simp_all add: none)
  next
    case (Some g)
    then show ?thesis
      by (cases "those rs") (simp_all add: Cons.IH)
  qed
qed

lemma fold_apply_gradient_count:
  assumes "foldl (\<lambda>st grads. Option.bind st (apply_gradient grads)) (Some st) gs = Some st'"
  shows "adam_count (snd st') = adam_count (snd st) + length gs"
  using assms
proof (induction gs arbitrary: st)
  case Nil
  then show ?case by simp
next
  case (Cons g gs)
  show ?case
  proof (cases "apply_gradient g st")
    case None
    with Cons.prems show ?thesis by (simp add: foldl_bind_None)
  next
    case (Some st1)
    with Cons.prems Cons.IH[of st1] apply_gradient_count[OF Some] show ?thesis by simp
  qed
qed

lemma length_those:
  assumes "those rs = Some gs"
  shows "length gs = length rs"
  using assms by (induction rs arbitrary: gs) (auto split: option.splits)

lemma order_in_range:
  assumes "mset order = mset [0..<n]" "i \<in> set order"
  shows "i < n"
proof -
  from assms(1) have "set order = set [0..<n]" by (rule mset_eq_setD)
  with assms(2) show ?thesis by simp
qed

lemma as_completed_results:
  assumes "mset order = mset [0..<length ddf]"
  shows "map snd (as_completed jax_grad (submit_partitions params ddf []) order)
       = map (\<lambda>i. dask_compute_grads_one_partition_wrapper jax_grad (ddf ! i) params) order"
proof -
  have "future_result jax_grad (submit_partitions params ddf [] ! i)
      = dask_compute_grads_one_partition_wrapper jax_grad (ddf ! i) params"
    if "i \<in> set order" for i
    using order_in_range[OF assms that]
    by (simp add: submit_partitions_eq future_result_def client_submit_def)
  then show ?thesis
    by (simp add: as_completed_def comp_def cong: map_cong)
qed

lemma case2_epoch_fold:
  assumes "mset order = mset [0..<length ddf]"
  shows "case2_epoch jax_grad ddf order (params, opt_state)
       = do { gs \<leftarrow> those (map (\<lambda>i. dask_compute_grads_one_partition_wrapper jax_grad
                                        (ddf ! i) params) order);
              foldl (\<lambda>st grads. Option.bind st (apply_gradient grads))
                (Some (params, opt_state)) gs }"
  by (simp add: aggregate_fold as_completed_results[OF assms] fold_results_those Let_def)

text \<open>
  C1. In an epoch of CASE 2 every gradient task is submitted with the parameters the epoch
  starts with, one task per partition; the epoch returns what the gradients of the loss
  at these parameters, taken in the order of completion, give when each is applied once
  (one optimizer update and one parameter update, \<open>apply_gradient\<close>); and when the epoch
  returns, the optimizer has counted as many updates as there are partitions.
\<close>

theorem case2_epoch_gradients:
  assumes "mset order = mset [0..<length ddf]"
  shows "map task_params (submit_partitions params ddf []) = replicate (length ddf) params
       \<and> map task_partition (submit_partitions params ddf []) = ddf
       \<and> case2_epoch jax_grad ddf order (params, opt_state)
           = do { gs \<leftarrow> those (map (\<lambda>i. dask_compute_grads_one_partition_wrapper jax_grad
                                            (ddf ! i) params) order);
                  foldl (\<lambda>st grads. Option.bind st (apply_gradient grads))
                    (Some (params, opt_state)) gs }
       \<and> (\<forall>st'. case2_epoch jax_grad ddf order (params, opt_state) = Some st'
              \<longrightarrow> adam_count (snd st') = adam_count opt_state + length ddf)"
proof -
  have 1: "map task_params (submit_partitions params ddf []) = replicate (length ddf) params"
    by (simp add: submit_partitions_eq client_submit_def comp_def map_replicate_const)
  have 2: "map task_partition (submit_partitions params ddf []) = ddf"
    by (simp add: submit_partitions_eq client_submit_def comp_def)
  note 3 = case2_epoch_fold[OF assms, of jax_grad params opt_state]
  have 4: "adam_count (snd st') = adam_count opt_state + length ddf"
    if "case2_epoch jax_grad ddf order (params, opt_state) = Some st'" for st'
  proof -
    from that[unfolded 3] obtain gs where
      gs: "those (map (\<lambda>i. dask_compute_grads_one_partition_wrapper jax_grad (ddf ! i) params)
             order) = Some gs"
      and f: "foldl (\<lambda>st grads. Option.bind st (apply_gradient grads))
                (Some (params, opt_state)) gs = Some st'"
      by (auto split: Option.bind_splits)
    have "length gs = length order"
      using length_those[OF gs] by simp
    also have "\<dots> = length ddf"
      using mset_eq_length[OF assms] by simp
    finally show ?thesis
      using fold_apply_gradient_count[OF f] by simp
  qed
  from 1 2 3 4 show ?thesis by blast
qed

section \<open>Training at constant networks\<close>

lemma tree_map_constant_net:
  assumes "f 0 = 0"
  shows "tree_map f (constant_net c) = constant_net (f c)"
  using assms by (simp add: tree_map_def constant_net_def)

lemma tree_multimap_constant_net:
  assumes "f 0 0 = 0"
  shows "tree_multimap f (constant_net c) (constant_net d) = Some (constant_net (f c d))"
  using assms by (simp add: tree_multimap_def tree_shape_def constant_net_def)

lemma constant_net_inject: "constant_net c = constant_net d \<longleftrightarrow> c = d"
  by (simp add: constant_net_def)

lemma shift_constant_net: "shift_last_bias d (constant_net c) = constant_net (c + d)"
  by (simp add: shift_last_bias_def constant_net_def)

lemma loss_constant_net:
  assumes "wf_array x" "ncols x = 1"
    and "wf_array y" "ncols y = 1" "nrows y = nrows x" "0 < nrows x"
  shows "loss_function (constant_net c) x y
       = Some ((\<Sum>i<nrows x. (hd (rows y ! i) - c)\<^sup>2) / real (nrows x))"
proof -
  have a: "net_transform_apply (constant_net c) x = Some (Array2 1 (replicate (nrows x) [c]))"
    by (simp add: net_transform_apply_def net_function_constant[OF assms(1,2)])
  have "(\<Sum>i<nrows x. (hd (rows y ! i) - hd (rows (Array2 1 (replicate (nrows x) [c])) ! i))\<^sup>2)
      = (\<Sum>i<nrows x. (hd (rows y ! i) - c)\<^sup>2)"
    by (rule sum.cong) simp_all
  with loss_function_column[OF a assms(3-6)] show ?thesis by simp
qed

lemma optimizer_update_constant_net:
  "\<exists>upd v'. optimizer_update (constant_net g)
               \<lparr>adam_count = k, mu = constant_net m, nu = constant_net v\<rparr>
       = Some (constant_net upd,
               \<lparr>adam_count = k + 1, mu = constant_net (g / 10 + 9 * m / 10),
                  nu = constant_net v'\<rparr>)"
  by (simp add: optimizer_update_def adam_update_def Let_def tree_multimap_constant_net
      tree_map_constant_net constant_net_inject)

lemma apply_gradient_constant_net:
  "\<exists>c' v'. apply_gradient (constant_net g)
               (constant_net c, \<lparr>adam_count = k, mu = constant_net m, nu = constant_net v\<rparr>)
       = Some (constant_net c',
               \<lparr>adam_count = k + 1, mu = constant_net (g / 10 + 9 * m / 10),
                  nu = constant_net v'\<rparr>)"
proof -
  from optimizer_update_constant_net[of g k m v] obtain upd v' where
    "optimizer_update (constant_net g) \<lparr>adam_count = k, mu = constant_net m, nu = constant_net v\<rparr>
       = Some (constant_net upd,
               \<lparr>adam_count = k + 1, mu = constant_net (g / 10 + 9 * m / 10),
                  nu = constant_net v'\<rparr>)"
    by auto
  then show ?thesis
    by (simp add: apply_gradient_def apply_updates_def tree_multimap_constant_net
        constant_net_inject)
qed

lemma optimizer_init_constant_net:
  "optimizer_init (constant_net c)
     = \<lparr>adam_count = 0, mu = constant_net 0, nu = constant_net 0\<rparr>"
  by (simp add: optimizer_init_def adam_init_def tree_map_constant_net)

lemma last_bias_grad_constant_net:
  assumes "f (constant_net (c + 1)) = Some l1" "f (constant_net (c - 1)) = Some l2"
  shows "last_bias_grad f (constant_net c) = Some (constant_net ((l1 - l2) / 2))"
proof -
  have "butlast (constant_net 0) @ [(last (constant_net 0))\<lparr>b := [v]\<rparr>] = constant_net v" for v
    by (simp add: constant_net_def)
  then show ?thesis
    using assms by (simp add: last_bias_grad_def shift_constant_net tree_map_constant_net)
qed

lemma loss_one_row:
  "loss_function (constant_net c) (Array2 1 [[s]]) (Array2 1 [[t]]) = Some ((t - c)\<^sup>2)"
proof -
  have "loss_function (constant_net c) (Array2 1 [[s]]) (Array2 1 [[t]])
      = Some ((\<Sum>i<nrows (Array2 1 [[s]]). (hd (rows (Array2 1 [[t]]) ! i) - c)\<^sup>2)
               / real (nrows (Array2 1 [[s]])))"
    by (rule loss_constant_net) (simp_all add: wf_array_def nrows_def)
  then show ?thesis
    by (simp add: nrows_def)
qed

lemma grads_one_row:
  assumes "map_of (columns part) ''scaled_x'' = Some [s]" "map_of (columns part) ''y'' = Some [t]"
    and "index part = [l]"
  shows "dask_compute_grads_one_partition_wrapper last_bias_grad part (constant_net c)
       = Some (constant_net (2 * (c - t)))"
proof -
  have v: "df_values \<lparr>index = [l], columns = [(''scaled_x'', [s])]\<rparr> = Array2 1 [[s]]"
    "df_values \<lparr>index = [l], columns = [(''y'', [t])]\<rparr> = Array2 1 [[t]]"
    by (simp_all add: df_values_def df_nrows_def)
  have "last_bias_grad (\<lambda>p. loss_function p (Array2 1 [[s]]) (Array2 1 [[t]])) (constant_net c)
      = Some (constant_net (((t - (c + 1))\<^sup>2 - (t - (c - 1))\<^sup>2) / 2))"
    by (rule last_bias_grad_constant_net) (simp_all only: loss_one_row)
  also have "((t - (c + 1))\<^sup>2 - (t - (c - 1))\<^sup>2) / 2 = 2 * (c - t)"
    by (simp add: power2_eq_square algebra_simps diff_divide_distrib)
  finally show ?thesis
    by (simp add: dask_compute_grads_one_partition_wrapper_def df_getitem_column assms v
        compute_grads_def del: One_nat_def)
qed

lemma grads_part_a:
  "dask_compute_grads_one_partition_wrapper last_bias_grad part_a (constant_net c)
     = Some (constant_net (2 * c))"
  using grads_one_row[where s="- 1" and l=0 and t=0 and part=part_a and c=c]
  by (simp add: part_a_def)

lemma grads_part_b:
  "dask_compute_grads_one_partition_wrapper last_bias_grad part_b (constant_net c)
     = Some (constant_net (2 * (c - 1)))"
  using grads_one_row[where s=0 and l=1 and t=1 and part=part_b and c=c]
  by (simp add: part_b_def)

lemma grads_part_c:
  "dask_compute_grads_one_partition_wrapper last_bias_grad part_c (constant_net c)
     = Some (constant_net (2 * c))"
  using grads_one_row[where s=1 and l=2 and t=0 and part=part_c and c=c]
  by (simp add: part_c_def)

lemma two_steps_constant_net:
  "\<exists>c' v'. foldl (\<lambda>st grads. Option.bind st (apply_gradient grads))
              (Some (constant_net c, optimizer_init (constant_net c)))
              [constant_net g, constant_net h]
     = Some (constant_net c',
             \<lparr>adam_count = 2, mu = constant_net (h / 10 + 9 * g / 100), nu = constant_net v'\<rparr>)"
proof -
  from apply_gradient_constant_net[of g c 0 0 0] obtain c1 v1 where
    1: "apply_gradient (constant_net g) (constant_net c, optimizer_init (constant_net c))
        = Some (constant_net c1,
                \<lparr>adam_count = 1, mu = constant_net (g / 10), nu = constant_net v1\<rparr>)"
    by (auto simp: optimizer_init_constant_net)
  from apply_gradient_constant_net[of h c1 1 "g / 10" v1] obtain c2 v2 where
    2: "apply_gradient (constant_net h)
          (constant_net c1, \<lparr>adam_count = 1, mu = constant_net (g / 10), nu = constant_net v1\<rparr>)
        = Some (constant_net c2,
                \<lparr>adam_count = 2, mu = constant_net (h / 10 + 9 * g / 100),
                   nu = constant_net v2\<rparr>)"
    by (auto simp: one_add_one)
  show ?thesis
    unfolding foldl_Cons foldl_Nil Option.bind.bind_lunit 1 2 by blast
qed

lemma orders_of_two:
  "mset [0, 1] = mset [0..<length [p, q]]" "mset [1, 0] = mset [0..<length [p, q]]"
  by (simp_all add: upt_rec)

lemma epoch_of_two:
  assumes "dask_compute_grads_one_partition_wrapper last_bias_grad p (constant_net c)
             = Some (constant_net g)"
    and "dask_compute_grads_one_partition_wrapper last_bias_grad q (constant_net c)
             = Some (constant_net h)"
  shows "\<exists>c' v'. case2_epoch last_bias_grad [p, q] [0, 1]
                    (constant_net c, optimizer_init (constant_net c))
           = Some (constant_net c',
                   \<lparr>adam_count = 2, mu = constant_net (h / 10 + 9 * g / 100),
                      nu = constant_net v'\<rparr>)"
    and "\<exists>c' v'. case2_epoch last_bias_grad [p, q] [1, 0]
                    (constant_net c, optimizer_init (constant_net c))
           = Some (constant_net c',
                   \<lparr>adam_count = 2, mu = constant_net (g / 10 + 9 * h / 100),
                      nu = constant_net v'\<rparr>)"
proof -
  have t1: "those (map (\<lambda>i. dask_compute_grads_one_partition_wrapper last_bias_grad
                            ([p, q] ! i) (constant_net c)) [0, 1])
          = Some [constant_net g, constant_net h]"
    and t2: "those (map (\<lambda>i. dask_compute_grads_one_partition_wrapper last_bias_grad
                            ([p, q] ! i) (constant_net c)) [1, 0])
          = Some [constant_net h, constant_net g]"
    by (simp_all add: assms)
  show "\<exists>c' v'. case2_epoch last_bias_grad [p, q] [0, 1]
                    (constant_net c, optimizer_init (constant_net c))
           = Some (constant_net c',
                   \<lparr>adam_count = 2, mu = constant_net (h / 10 + 9 * g / 100),
                      nu = constant_net v'\<rparr>)"
    unfolding case2_epoch_fold[OF orders_of_two(1)] t1 Option.bind.bind_lunit
    by (rule two_steps_constant_net)
  show "\<exists>c' v'. case2_epoch last_bias_grad [p, q] [1, 0]
                    (constant_net c, optimizer_init (constant_net c))
           = Some (constant_net c',
                   \<lparr>adam_count = 2, mu = constant_net (g / 10 + 9 * h / 100),
                      nu = constant_net v'\<rparr>)"
    unfolding case2_epoch_fold[OF orders_of_two(2)] t2 Option.bind.bind_lunit
    by (rule two_steps_constant_net)
qed

theorem case2_epoch_gradients_witness:
  "map task_params (submit_partitions (constant_net (1 / 2)) [part_a, part_b] [])
     = replicate (length [part_a, part_b]) (constant_net (1 / 2))
   \<and> map task_partition (submit_partitions (constant_net (1 / 2)) [part_a, part_b] [])
     = [part_a, part_b]
   \<and> (\<exists>st'. case2_epoch last_bias_grad [part_a, part_b] [1, 0]
              (constant_net (1 / 2), optimizer_init (constant_net (1 / 2))) = Some st'
          \<and> adam_count (snd st') = 2 \<and> mu (snd st') = constant_net (1 / 100))"
proof -
  note t = case2_epoch_gradients[where ddf="[part_a, part_b]" and order="[1, 0]"
      and params="constant_net (1 / 2)" and jax_grad=last_bias_grad
      and opt_state="optimizer_init (constant_net (1 / 2))", OF orders_of_two(2)]
  from epoch_of_two(2)[OF grads_part_a grads_part_b, of "1 / 2"] obtain c' v' where
    e: "case2_epoch last_bias_grad [part_a, part_b] [1, 0]
          (constant_net (1 / 2), optimizer_init (constant_net (1 / 2)))
        = Some (constant_net c',
                \<lparr>adam_count = 2, mu = constant_net (1 / 100), nu = constant_net v'\<rparr>)"
    by auto
  from t e have "adam_count (snd (constant_net c',
                \<lparr>adam_count = 2, mu = constant_net (1 / 100), nu = constant_net v'\<rparr>))
      = adam_count (optimizer_init (constant_net (1 / 2))) + length [part_a, part_b]"
    by blast
  with t e show ?thesis
    by simp
qed

text \<open>
  C2, as stated, fails: with the gradients of \<open>part_a\<close> and \<open>part_b\<close> at the parameters
  \<open>constant_net (1 / 2)\<close>, the epoch ends with the first moment \<open>-1 / 100\<close> in the last
  bias when \<open>part_a\<close> completes first, and with \<open>1 / 100\<close> when \<open>part_b\<close> does.
\<close>

theorem completion_order_matters:
  "mset [0, 1] = mset [0..<length [part_a, part_b]]
   \<and> mset [1, 0] = mset [0..<length [part_a, part_b]]
   \<and> case2_epoch last_bias_grad [part_a, part_b] [0, 1]
        (constant_net (1 / 2), optimizer_init (constant_net (1 / 2)))
     \<noteq> case2_epoch last_bias_grad [part_a, part_b] [1, 0]
        (constant_net (1 / 2), optimizer_init (constant_net (1 / 2)))"
proof -
  from epoch_of_two(1)[OF grads_part_a grads_part_b, of "1 / 2"] obtain c1 v1 where
    1: "case2_epoch last_bias_grad [part_a, part_b] [0, 1]
          (constant_net (1 / 2), optimizer_init (constant_net (1 / 2)))
        = Some (constant_net c1,
                \<lparr>adam_count = 2, mu = constant_net (- 1 / 100), nu = constant_net v1\<rparr>)"
    by auto
  from epoch_of_two(2)[OF grads_part_a grads_part_b, of "1 / 2"] obtain c2 v2 where
    2: "case2_epoch last_bias_grad [part_a, part_b] [1, 0]
          (constant_net (1 / 2), optimizer_init (constant_net (1 / 2)))
        = Some (constant_net c2,
                \<lparr>adam_count = 2, mu = constant_net (1 / 100), nu = constant_net v2\<rparr>)"
    by auto
  show ?thesis
    unfolding 1 2 using orders_of_two[of part_a part_b]
    by (simp add: constant_net_inject)
qed

lemma results_fold_permuted:
  fixes rs1 rs2 :: "hk_params option list"
  assumes "mset rs1 = mset rs2"
    and commute: "\<And>g h st. Some g \<in> set rs1 \<Longrightarrow> Some h \<in> set rs1 \<Longrightarrow>
        Option.bind (apply_gradient g st) (apply_gradient h)
          = Option.bind (apply_gradient h st) (apply_gradient g)"
  shows "foldl (\<lambda>st r. Option.bind st (\<lambda>s. Option.bind r (\<lambda>grads. apply_gradient grads s))) s rs1
       = foldl (\<lambda>st r. Option.bind st (\<lambda>s. Option.bind r (\<lambda>grads. apply_gradient grads s))) s rs2"
proof -
  let ?F = "\<lambda>r st. Option.bind st (\<lambda>s. Option.bind r (\<lambda>grads. apply_gradient grads s))"
  have comm: "?F r1 \<circ> ?F r2 = ?F r2 \<circ> ?F r1" if "r1 \<in> set rs1" "r2 \<in> set rs1" for r1 r2
  proof (rule ext)
    fix so
    show "(?F r1 \<circ> ?F r2) so = (?F r2 \<circ> ?F r1) so"
    proof (cases so)
      case None
      then show ?thesis by simp
    next
      case (Some st)
      show ?thesis
      proof (cases r1)
        case None
        then show ?thesis by (simp add: Some)
      next
        case g: (Some g)
        show ?thesis
        proof (cases r2)
          case None
          then show ?thesis by (simp add: Some g)
        next
          case h: (Some h)
          from commute[of h g st] that show ?thesis
            by (simp add: Some g h)
        qed
      qed
    qed
  qed
  have "fold ?F rs1 = fold ?F rs2"
    using comm assms(1) by (rule fold_multiset_equiv)
  then show ?thesis
    by (simp add: foldl_conv_fold)
qed

text \<open>
  C2, amended. Two completion orders of an epoch give the same parameters and optimizer
  state when the steps of the epoch's gradients commute, that is, when applying one
  gradient and then another gives what applying them the other way round gives.
\<close>

theorem completion_order_irrelevant_if_steps_commute:
  assumes "mset order1 = mset [0..<length ddf]" "mset order2 = mset [0..<length ddf]"
    and commute: "\<And>i j g h st. i < length ddf \<Longrightarrow> j < length ddf \<Longrightarrow>
        dask_compute_grads_one_partition_wrapper jax_grad (ddf ! i) params = Some g \<Longrightarrow>
        dask_compute_grads_one_partition_wrapper jax_grad (ddf ! j) params = Some h \<Longrightarrow>
        Option.bind (apply_gradient g st) (apply_gradient h)
          = Option.bind (apply_gradient h st) (apply_gradient g)"
  shows "case2_epoch jax_grad ddf order1 (params, opt_state)
       = case2_epoch jax_grad ddf order2 (params, opt_state)"
proof -
  let ?r = "\<lambda>i. dask_compute_grads_one_partition_wrapper jax_grad (ddf ! i) params"
  have m: "mset (map ?r order1) = mset (map ?r order2)"
    using assms(1,2) by simp
  have c: "Option.bind (apply_gradient g st) (apply_gradient h)
          = Option.bind (apply_gradient h st) (apply_gradient g)"
    if "Some g \<in> set (map ?r order1)" "Some h \<in> set (map ?r order1)" for g h st
  proof -
    from that obtain i j where
      "i \<in> set order1" "?r i = Some g" "j \<in> set order1" "?r j = Some h"
      by auto
    with order_in_range[OF assms(1)] show ?thesis
      by (intro commute[of i j]) auto
  qed
  have e: "case2_epoch jax_grad ddf order (params, opt_state)
       = foldl (\<lambda>st r. Option.bind st (\<lambda>s. Option.bind r (\<lambda>grads. apply_gradient grads s)))
           (Some (params, opt_state)) (map ?r order)"
    if "mset order = mset [0..<length ddf]" for order
    by (simp add: aggregate_fold as_completed_results[OF that] Let_def)
  show ?thesis
    unfolding e[OF assms(1)] e[OF assms(2)] by (rule results_fold_permuted[OF m c])
qed

theorem completion_order_irrelevant_if_steps_commute_witness:
  "case2_epoch last_bias_grad [part_a, part_c] [0, 1]
        (constant_net (1 / 2), optimizer_init (constant_net (1 / 2)))
     = case2_epoch last_bias_grad [part_a, part_c] [1, 0]
        (constant_net (1 / 2), optimizer_init (constant_net (1 / 2)))
   \<and> (\<exists>st'. case2_epoch last_bias_grad [part_a, part_c] [0, 1]
        (constant_net (1 / 2), optimizer_init (constant_net (1 / 2))) = Some st')"
proof -
  have g: "dask_compute_grads_one_partition_wrapper last_bias_grad ([part_a, part_c] ! i)
             (constant_net (1 / 2)) = Some (constant_net 1)"
    if "i < length [part_a, part_c]" for i
    using that grads_part_a[of "1 / 2"] grads_part_c[of "1 / 2"]
    by (cases i) simp_all
  have "case2_epoch last_bias_grad [part_a, part_c] [0, 1]
        (constant_net (1 / 2), optimizer_init (constant_net (1 / 2)))
     = case2_epoch last_bias_grad [part_a, part_c] [1, 0]
        (constant_net (1 / 2), optimizer_init (constant_net (1 / 2)))"
  proof (rule completion_order_irrelevant_if_steps_commute[OF orders_of_two])
    fix i j g' h st
    assume "i < length [part_a, part_c]" "j < length [part_a, part_c]"
      and "dask_compute_grads_one_partition_wrapper last_bias_grad ([part_a, part_c] ! i)
             (constant_net (1 / 2)) = Some g'"
      and "dask_compute_grads_one_partition_wrapper last_bias_grad ([part_a, part_c] ! j)
             (constant_net (1 / 2)) = Some h"
    then have "g' = h"
      using g[of i] g[of j] by simp
    then show "Option.bind (apply_gradient g' st) (apply_gradient h)
          = Option.bind (apply_gradient h st) (apply_gradient g')"
      by simp
  qed
  moreover from epoch_of_two(1)[OF grads_part_a grads_part_c, of "1 / 2"]
  have "\<exists>st'. case2_epoch last_bias_grad [part_a, part_c] [0, 1]
        (constant_net (1 / 2), optimizer_init (constant_net (1 / 2))) = Some st'"
    by auto
  ultimately show ?thesis by simp
qed

text \<open>
  The loop of CASE 2 runs one such epoch after the other, each from the state the one
  before returned, the first from the state of the reset.
\<close>

lemma case2_epochs_fold:
  "case2_epochs jax_grad ddf sched epochs st
     = foldl (\<lambda>s epoch_number. Option.bind s (case2_epoch jax_grad ddf (sched epoch_number)))
         (Some st) epochs"
proof (induction epochs arbitrary: st)
  case Nil
  then show ?case by simp
next
  case (Cons e epochs)
  show ?case
    by (cases "case2_epoch jax_grad ddf (sched e) st") (simp_all add: Cons.IH foldl_bind_None)
qed

lemma state_after_case2_fold:
  "state_after_case2 jax_grad w_init u' choice sched =
     do { ddf \<leftarrow> ddf_train choice;
          foldl (\<lambda>s epoch_number. Option.bind s (case2_epoch jax_grad ddf (sched epoch_number)))
            (Some (state_reset w_init u')) [0..<200] }"
  by (simp add: state_after_case2_def case2_epochs_fold del: upt_Suc)
text \<open>
  The update step on a batch of one sample \<open>(s, t)\<close> at a constant network: the gradient is
  \<open>2 * (c - t)\<close> in the last bias, and the step returns with one update counted.
\<close>

lemma update_at_constant_net:
  "\<exists>c' v'. update last_bias_grad (constant_net c) (optimizer_init (constant_net c))
              (Array2 1 [[s]]) (Array2 1 [[t]])
     = Some (constant_net c',
             \<lparr>adam_count = 1, mu = constant_net ((c - t) / 5), nu = constant_net v'\<rparr>)"
proof -
  have g: "last_bias_grad (\<lambda>p. loss_function p (Array2 1 [[s]]) (Array2 1 [[t]])) (constant_net c)
      = Some (constant_net (((t - (c + 1))\<^sup>2 - (t - (c - 1))\<^sup>2) / 2))"
    by (rule last_bias_grad_constant_net) (simp_all only: loss_one_row)
  have "((t - (c + 1))\<^sup>2 - (t - (c - 1))\<^sup>2) / 2 = 2 * (c - t)"
    by (simp add: power2_eq_square algebra_simps diff_divide_distrib)
  with g have g': "last_bias_grad (\<lambda>p. loss_function p (Array2 1 [[s]]) (Array2 1 [[t]]))
      (constant_net c) = Some (constant_net (2 * (c - t)))"
    by simp
  from apply_gradient_constant_net[of "2 * (c - t)" c 0 0 0] obtain c' v' where
    a: "apply_gradient (constant_net (2 * (c - t)))
         (constant_net c, \<lparr>adam_count = 0, mu = constant_net 0, nu = constant_net 0\<rparr>)
       = Some (constant_net c',
               \<lparr>adam_count = 0 + 1, mu = constant_net (2 * (c - t) / 10 + 9 * 0 / 10),
                  nu = constant_net v'\<rparr>)"
    by blast
  have m: "2 * (c - t) / 10 + 9 * 0 / 10 = (c - t) / 5" "0 + 1 = (1::nat)"
    by simp_all
  show ?thesis
    unfolding update_eq_apply_gradient g' Option.bind.bind_lunit optimizer_init_constant_net
      a m by blast
qed
end
